theory Spec2Isabelle
  imports Main
begin

section \<open>Strings and paths\<close>

text \<open>
  The module \<^verbatim>\<open>wlutil.py\<close> is glue around external programs. Its own logic is string
  building, sequencing and error propagation, so the model has three layers: the string
  and path helpers of the Python library that the module calls, the environment (every
  answer of the operating system is an oracle that sees the history of effects so far),
  and the functions of the module, written in state-passing style over a trace of
  effects, with exceptions as the left summand of the result.
\<close>

definition sq :: char where
  \<comment> \<open>the single quote\<close>
  "sq = CHR 0x27"

definition dq :: char where
  \<comment> \<open>the double quote\<close>
  "dq = CHR 0x22"

text \<open>\<^verbatim>\<open>sep.join(xs)\<close>\<close>

fun str_join :: "string \<Rightarrow> string list \<Rightarrow> string" where
  "str_join sep [] = []"
| "str_join sep [x] = x"
| "str_join sep (x # y # ys) = x @ sep @ str_join sep (y # ys)"

text \<open>\<^verbatim>\<open>s.split(c)\<close> for a one-character separator: never the empty list.\<close>

fun split_on :: "char \<Rightarrow> string \<Rightarrow> string list" where
  "split_on c [] = [[]]"
| "split_on c (x # xs) =
     (if x = c then [] # split_on c xs
      else (case split_on c xs of
              [] \<Rightarrow> [[x]]
            | y # ys \<Rightarrow> (x # y) # ys))"

text \<open>\<^verbatim>\<open>s.startswith(p)\<close>, \<^verbatim>\<open>s.endswith(p)\<close>\<close>

definition startswith :: "string \<Rightarrow> string \<Rightarrow> bool" where
  "startswith s p = (take (length p) s = p)"

definition endswith :: "string \<Rightarrow> string \<Rightarrow> bool" where
  "endswith s p = (length p \<le> length s \<and> drop (length s - length p) s = p)"

text \<open>\<^verbatim>\<open>s.rfind(c)\<close>: the last index of \<open>c\<close>, or \<open>-1\<close>.\<close>

definition rfind :: "char \<Rightarrow> string \<Rightarrow> int" where
  "rfind c s = (case filter (\<lambda>i. s ! i = c) (rev [0..<length s]) of
                  [] \<Rightarrow> - 1
                | i # _ \<Rightarrow> int i)"

text \<open>\<^verbatim>\<open>s.strip()\<close>, on the ASCII white space.\<close>

definition py_isspace :: "char \<Rightarrow> bool" where
  "py_isspace c = (c \<in> set [CHR 0x20, CHR 0x09, CHR 0x0A, CHR 0x0B, CHR 0x0C, CHR 0x0D,
                              CHR 0x1C, CHR 0x1D, CHR 0x1E, CHR 0x1F])"

definition str_strip :: "string \<Rightarrow> string" where
  "str_strip s = rev (dropWhile py_isspace (rev (dropWhile py_isspace s)))"

text \<open>
  \<^verbatim>\<open>os.path.basename\<close> (posixpath): \<^verbatim>\<open>i = p.rfind('/') + 1; return p[i:]\<close>.
\<close>

definition basename :: "string \<Rightarrow> string" where
  "basename p = drop (nat (rfind CHR ''/'' p + 1)) p"

text \<open>
  \<^verbatim>\<open>os.path.splitext\<close> (genericpath._splitext with \<open>sep = '/'\<close>, \<open>extsep = '.'\<close>):
  the extension starts at the last dot of the last component, unless that component has
  only dots before it.
\<close>

definition splitext :: "string \<Rightarrow> string \<times> string" where
  "splitext p =
     (let sepIndex = rfind CHR ''/'' p;
          dotIndex = rfind CHR ''.'' p
      in if dotIndex > sepIndex \<and>
            list_ex (\<lambda>c. c \<noteq> CHR ''.'')
              (take (nat dotIndex - nat (sepIndex + 1)) (drop (nat (sepIndex + 1)) p))
         then (take (nat dotIndex) p, drop (nat dotIndex) p)
         else (p, []))"

text \<open>
  \<^verbatim>\<open>os.path.join(a, b)\<close> (posixpath, two arguments): an absolute \<open>b\<close> discards \<open>a\<close>.
\<close>

definition os_path_join :: "string \<Rightarrow> string \<Rightarrow> string" where
  "os_path_join a b =
     (if startswith b ''/'' then b
      else if a = [] \<or> endswith a ''/'' then a @ b
      else a @ ''/'' @ b)"

text \<open>
  \<^verbatim>\<open>os.path.normpath\<close> (posixpath): empty and \<open>.\<close> components are dropped, a \<open>..\<close>
  removes the component before it, one or two leading slashes are kept.
\<close>

definition norm_step :: "nat \<Rightarrow> string \<Rightarrow> string list \<Rightarrow> string list" where
  "norm_step initial_slashes cmp new_comps =
     (if cmp = [] \<or> cmp = ''.'' then new_comps
      else if cmp \<noteq> ''..'' \<or> (initial_slashes = 0 \<and> new_comps = []) \<or>
              (new_comps \<noteq> [] \<and> last new_comps = ''..'')
           then new_comps @ [cmp]
      else if new_comps \<noteq> [] then butlast new_comps
      else new_comps)"

definition normpath :: "string \<Rightarrow> string" where
  "normpath path =
     (if path = [] then ''.''
      else
        let initial_slashes =
              (if startswith path ''/''
               then (if startswith path ''//'' \<and> \<not> startswith path ''///'' then 2 else 1)
               else (0::nat));
            comps = split_on CHR ''/'' path;
            new_comps = fold (norm_step initial_slashes) comps [];
            p = replicate initial_slashes CHR ''/'' @ str_join ''/'' new_comps
        in if p = [] then ''.'' else p)"

text \<open>
  \<^verbatim>\<open>Path(a) / b\<close> of pathlib, as the string of the result: pathlib drops empty and
  \<open>.\<close> components and trailing slashes, keeps \<open>..\<close>, and an absolute \<open>b\<close> replaces \<open>a\<close>.
\<close>

definition pathlib_str :: "string \<Rightarrow> string" where
  "pathlib_str s =
     (let root = (if startswith s ''//'' \<and> \<not> startswith s ''///'' then ''//''
                  else if startswith s ''/'' then ''/'' else []);
          p = root @ str_join ''/''
                (filter (\<lambda>c. c \<noteq> [] \<and> c \<noteq> ''.'') (split_on CHR ''/'' s))
      in if p = [] then ''.'' else p)"

definition pathlib_div :: "string \<Rightarrow> string \<Rightarrow> string" where
  "pathlib_div a b = pathlib_str (if startswith b ''/'' then b else a @ ''/'' @ b)"

text \<open>\<^verbatim>\<open>str(n)\<close> for a natural number, and zero padding as \<^verbatim>\<open>%m\<close>, \<^verbatim>\<open>%d\<close>, ... do.\<close>

fun show_nat :: "nat \<Rightarrow> string" where
  "show_nat n =
     (if n < 10 then [''0123456789'' ! n]
      else show_nat (n div 10) @ [''0123456789'' ! (n mod 10)])"

definition zpad :: "nat \<Rightarrow> string \<Rightarrow> string" where
  "zpad k s = replicate (k - length s) CHR ''0'' @ s"

record struct_time =
  tm_year :: nat
  tm_mon :: nat
  tm_mday :: nat
  tm_hour :: nat
  tm_min :: nat
  tm_sec :: nat

text \<open>\<^verbatim>\<open>time.strftime("%Y-%m-%d--%H-%M-%S", t)\<close>\<close>

definition strftime_run :: "struct_time \<Rightarrow> string" where
  "strftime_run t =
     show_nat (tm_year t) @ ''-'' @ zpad 2 (show_nat (tm_mon t)) @ ''-'' @
     zpad 2 (show_nat (tm_mday t)) @ ''--'' @ zpad 2 (show_nat (tm_hour t)) @ ''-'' @
     zpad 2 (show_nat (tm_min t)) @ ''-'' @ zpad 2 (show_nat (tm_sec t))"

text \<open>
  \<^verbatim>\<open>int(s)\<close> on a line of text: white space around, an optional sign, decimal digits
  with single underscores between them; anything else raises \<^verbatim>\<open>ValueError\<close>.
\<close>

definition is_digit :: "char \<Rightarrow> bool" where
  "is_digit c = (c \<in> set ''0123456789'')"

definition digit_val :: "char \<Rightarrow> int" where
  "digit_val c = int (length (takeWhile (\<lambda>d. d \<noteq> c) ''0123456789''))"

fun py_digits :: "int \<Rightarrow> string \<Rightarrow> int option" where
  \<comment> \<open>the digits after the first one; the accumulator is the value so far\<close>
  "py_digits acc [] = Some acc"
| "py_digits acc [c] = (if is_digit c then Some (10 * acc + digit_val c) else None)"
| "py_digits acc (c # d # cs) =
     (if is_digit c then py_digits (10 * acc + digit_val c) (d # cs)
      else if c = CHR ''_'' \<and> is_digit d then py_digits acc (d # cs)
      else None)"

definition py_unsigned :: "string \<Rightarrow> int option" where
  "py_unsigned s = (case s of
                      [] \<Rightarrow> None
                    | c # cs \<Rightarrow> if is_digit c then py_digits (digit_val c) cs else None)"


section \<open>Exceptions, effects and the environment\<close>

datatype exn =
    CalledProcessError int string  \<comment> \<open>return code, command\<close>
  | ValueError string
  | KeyError string
  | OSError nat  \<comment> \<open>errno\<close>
  | GitError string

definition int_msg :: "string \<Rightarrow> string" where
  "int_msg s = ''invalid literal for int() with base 10: '' @ [sq] @ s @ [sq]"

definition py_int :: "string \<Rightarrow> exn + int" where
  "py_int s =
     (let t = str_strip s
      in case t of
           [] \<Rightarrow> Inl (ValueError (int_msg s))
         | c # cs \<Rightarrow>
             (case (if c = CHR ''-'' \<or> c = CHR ''+'' then py_unsigned cs else py_unsigned t) of
                None \<Rightarrow> Inl (ValueError (int_msg s))
              | Some v \<Rightarrow> Inr (if c = CHR ''-'' then - v else v)))"

definition ESRCH :: nat where
  "ESRCH = 3"

definition EPERM :: nat where
  "EPERM = 1"

definition logging_DEBUG :: int where
  "logging_DEBUG = 10"

definition logging_INFO :: int where
  "logging_INFO = 20"

definition logging_WARNING :: int where
  "logging_WARNING = 30"

definition logging_ERROR :: int where
  "logging_ERROR = 40"

text \<open>
  The first positional argument of \<^verbatim>\<open>run\<close> is a shell string or an argument vector;
  the keyword arguments the module passes on to \<^verbatim>\<open>Popen\<close> are \<^verbatim>\<open>cwd\<close> and
  \<^verbatim>\<open>shell\<close>.
\<close>

datatype cmd = CmdStr string | CmdArgv "string list"

record kwargs =
  cwd :: "string option"
  shell :: bool

text \<open>
  Every effect on the outside world is an event. An event that asks the world a question
  carries the answer it got, so a trace shows what the program saw. A failing system call
  answers with its errno (\<^verbatim>\<open>OSError\<close>).
\<close>

datatype event =
    LogMsg int string  \<comment> \<open>\<^verbatim>\<open>log.log(level, msg)\<close>\<close>
  | LogList int "string list"  \<comment> \<open>\<^verbatim>\<open>log.log(level, [...])\<close>\<close>
  | Popen cmd kwargs  \<comment> \<open>\<^verbatim>\<open>sp.Popen(...)\<close>\<close>
  | Wait cmd int  \<comment> \<open>\<^verbatim>\<open>p.wait()\<close> and the \<^verbatim>\<open>p.returncode\<close> it left\<close>
  | SpCall string  \<comment> \<open>\<^verbatim>\<open>sp.call(s, shell=True)\<close>\<close>
  | Kill int "nat option"  \<comment> \<open>\<^verbatim>\<open>os.kill(pid, 0)\<close>: no exception, or the errno\<close>
  | Sleep nat  \<comment> \<open>\<^verbatim>\<open>time.sleep\<close>, in milliseconds\<close>
  | ReadLine string "nat + string"  \<comment> \<open>\<^verbatim>\<open>open(path).readline()\<close>\<close>
  | Remove string "nat option"  \<comment> \<open>\<^verbatim>\<open>os.remove(path)\<close>\<close>
  | Exists string bool  \<comment> \<open>\<^verbatim>\<open>os.path.exists\<close>, \<^verbatim>\<open>Path.exists\<close>\<close>
  | Mkdir string "nat option"  \<comment> \<open>\<^verbatim>\<open>Path.mkdir(parents=True)\<close>\<close>
  | CopyFile string string "nat option"  \<comment> \<open>\<^verbatim>\<open>shutil.copy(src, dst)\<close>\<close>
  | Glob string string "string list"  \<comment> \<open>\<^verbatim>\<open>Path.glob(pattern)\<close>\<close>
  | RepoOpen string "string option"  \<comment> \<open>\<^verbatim>\<open>git.Repo(path)\<close>: fine, or the error\<close>
  | IsDirty string "string + bool"  \<comment> \<open>\<^verbatim>\<open>repo.is_dirty()\<close>\<close>
  | GmTime struct_time  \<comment> \<open>\<^verbatim>\<open>time.gmtime()\<close>\<close>
  | RandomChoice nat  \<comment> \<open>\<^verbatim>\<open>random.choice(seq)\<close>: the index drawn\<close>

text \<open>
  The environment: the two directories fixed when the module is imported, the parallelism
  flag, and one oracle for each question the module asks. Each oracle sees the trace so
  far, so the same question may get another answer later (a process that was alive is
  gone, a file that was missing exists).
\<close>

record env =
  root_dir :: string  \<comment> \<open>\<^verbatim>\<open>os.getcwd()\<close> at import\<close>
  wlutil_dir :: string  \<comment> \<open>\<^verbatim>\<open>pathlib.Path(__file__).parent.resolve()\<close>\<close>
  jlevel :: string  \<comment> \<open>\<^verbatim>\<open>"-j" + str(os.cpu_count())\<close>\<close>
  os_getcwd :: "event list \<Rightarrow> string"
  sp_Popen :: "event list \<Rightarrow> cmd \<Rightarrow> kwargs \<Rightarrow> nat + (string list \<times> int)"
    \<comment> \<open>the spawn fails with an errno, or the process prints these lines and exits with
        this code\<close>
  sp_call :: "event list \<Rightarrow> string \<Rightarrow> nat + int"
  os_kill :: "event list \<Rightarrow> int \<Rightarrow> nat option"
  open_readline :: "event list \<Rightarrow> string \<Rightarrow> nat + string"
  os_remove :: "event list \<Rightarrow> string \<Rightarrow> nat option"
  path_exists :: "event list \<Rightarrow> string \<Rightarrow> bool"
  path_mkdir :: "event list \<Rightarrow> string \<Rightarrow> nat option"
  shutil_copy :: "event list \<Rightarrow> string \<Rightarrow> string \<Rightarrow> nat option"
  path_glob :: "event list \<Rightarrow> string \<Rightarrow> string \<Rightarrow> string list"
  git_Repo :: "event list \<Rightarrow> string \<Rightarrow> string option"
  is_dirty :: "event list \<Rightarrow> string \<Rightarrow> string + bool"
  time_gmtime :: "event list \<Rightarrow> struct_time"
  random_below :: "event list \<Rightarrow> nat \<Rightarrow> nat"

text \<open>The state of the process: the effects so far and the global \<^verbatim>\<open>runName\<close>.\<close>

record world =
  trace :: "event list"
  runName :: string

definition emit :: "event \<Rightarrow> world \<Rightarrow> world" where
  "emit ev w = w\<lparr>trace := trace w @ [ev]\<rparr>"

definition log_log :: "int \<Rightarrow> string \<Rightarrow> world \<Rightarrow> world" where
  "log_log level msg w = emit (LogMsg level msg) w"

section \<open>Module constants\<close>

definition board_dir :: "env \<Rightarrow> string" where
  "board_dir E = pathlib_div (pathlib_div (pathlib_str (root_dir E)) ''boards'') ''firechip''"

definition linux_dir :: "env \<Rightarrow> string" where
  "linux_dir E = os_path_join (root_dir E) ''riscv-linux''"

definition busybox_dir :: "env \<Rightarrow> string" where
  "busybox_dir E = pathlib_div (wlutil_dir E) ''busybox''"

definition initramfs_root :: "env \<Rightarrow> string" where
  "initramfs_root E = pathlib_str (os_path_join (wlutil_dir E) ''initramfsRoot'')"

definition mnt :: "env \<Rightarrow> string" where
  "mnt E = os_path_join (root_dir E) ''disk-mount''"

record FileSpec =
  src :: string
  dst :: string

section \<open>Run name\<close>

definition alphabet :: string where
  \<comment> \<open>\<^verbatim>\<open>string.ascii_uppercase + string.digits\<close>\<close>
  "alphabet = ''ABCDEFGHIJKLMNOPQRSTUVWXYZ0123456789''"

text \<open>
  \<^verbatim>\<open>''.join(random.choice(alphabet) for _ in range(n))\<close>: \<open>n\<close> successive draws.
\<close>

fun rand_chars :: "env \<Rightarrow> nat \<Rightarrow> world \<Rightarrow> string \<times> world" where
  "rand_chars E 0 w = ([], w)"
| "rand_chars E (Suc n) w =
     (let i = random_below E (trace w) (length alphabet) mod length alphabet;
          (cs, w') = rand_chars E n (emit (RandomChoice i) w)
      in (alphabet ! i # cs, w'))"

definition setRunName :: "env \<Rightarrow> string option \<Rightarrow> string \<Rightarrow> world \<Rightarrow> world" where
  "setRunName E configPath operation w =
     (let t = time_gmtime E (trace w);
          timeline = strftime_run t;
          (randname, w1) = rand_chars E 16 (emit (GmTime t) w);
          configName = (case configPath of
                          None \<Rightarrow> []
                        | Some p \<Rightarrow> if p \<noteq> [] then fst (splitext (basename p)) else [])
      in w1\<lparr>runName := configName @ ''-'' @ operation @ ''-'' @ timeline @ ''-'' @ randname\<rparr>)"

definition getRunName :: "world \<Rightarrow> string" where
  "getRunName w = runName w"

section \<open>Command runner\<close>

definition prettyCmd :: "cmd \<Rightarrow> string" where
  "prettyCmd a = (case a of CmdStr s \<Rightarrow> s | CmdArgv xs \<Rightarrow> str_join '' '' xs)"

text \<open>
  \<^verbatim>\<open>iter(p.stdout.readline, '')\<close> stops at the first empty string, which is the end of
  the output: a line of the output is never empty, it ends with its newline.
\<close>

definition run :: "env \<Rightarrow> cmd \<Rightarrow> int \<Rightarrow> bool \<Rightarrow> kwargs \<Rightarrow> world \<Rightarrow> (exn + unit) \<times> world" where
  "run E args0 level check kw w =
     (let w1 = (case cwd kw of
                  Some d \<Rightarrow>
                    log_log level (''Running: '' @ [dq] @ prettyCmd args0 @ [dq] @ '' in '' @ d) w
                | None \<Rightarrow>
                    log_log level (''Running: '' @ [dq] @ prettyCmd args0 @ [dq] @ '' in '' @
                                   os_getcwd E (trace w)) w);
          w2 = emit (Popen args0 kw) w1
      in case sp_Popen E (trace w1) args0 kw of
           Inl errno \<Rightarrow> (Inl (OSError errno), w2)
         | Inr (out, returncode) \<Rightarrow>
             (let w3 = fold (\<lambda>line. log_log level (str_strip line))
                         (takeWhile (\<lambda>line. line \<noteq> []) out) w2;
                  w4 = emit (Wait args0 returncode) w3
              in if check = True \<and> returncode \<noteq> 0
                 then (Inl (CalledProcessError returncode (prettyCmd args0)), w4)
                 else (Inr (), w4)))"

definition no_kwargs :: kwargs where
  "no_kwargs = \<lparr>cwd = None, shell = False\<rparr>"

section \<open>Process liveness poller\<close>

text \<open>
  The loop has no bound: it is a partial function, and \<open>None\<close> is the call that never
  returns. \<^verbatim>\<open>os.kill(pid, 0)\<close> either returns or raises \<^verbatim>\<open>OSError\<close>; the handler
  leaves the loop on \<^verbatim>\<open>ESRCH\<close> only, every other outcome falls through to the sleep.
\<close>

partial_function (option) waitpid :: "env \<Rightarrow> int \<Rightarrow> world \<Rightarrow> ((exn + unit) \<times> world) option" where
  "waitpid E pid w =
     (let r = os_kill E (trace w) pid;
          w1 = emit (Kill pid r) w
      in case r of
           Some errno \<Rightarrow>
             if errno = ESRCH then Some (Inr (), w1)
             else waitpid E pid (emit (Sleep 250) w1)
         | None \<Rightarrow> waitpid E pid (emit (Sleep 250) w1))"

declare waitpid.simps [code]

section \<open>Image mount manager\<close>

definition mount_cmd :: "string \<Rightarrow> string \<Rightarrow> cmd" where
  "mount_cmd imgPath mntPath =
     CmdArgv [''guestmount'', ''--pid-file'', ''guestmount.pid'', ''-a'', imgPath,
              ''-m'', ''/dev/sda'', mntPath]"

definition unmount_cmd :: "string \<Rightarrow> cmd" where
  "unmount_cmd mntPath = CmdArgv [''guestunmount'', mntPath]"

definition pid_file :: string where
  "pid_file = ''./guestmount.pid''"

text \<open>
  \<^verbatim>\<open>with open('./guestmount.pid', 'r') as pidFile: mntPid = int(pidFile.readline())\<close>
\<close>

definition read_pid :: "env \<Rightarrow> world \<Rightarrow> (exn + int) \<times> world" where
  "read_pid E w =
     (let r = open_readline E (trace w) pid_file;
          w1 = emit (ReadLine pid_file r) w
      in case r of
           Inl errno \<Rightarrow> (Inl (OSError errno), w1)
         | Inr line \<Rightarrow> (py_int line, w1))"

definition os_remove_file :: "env \<Rightarrow> string \<Rightarrow> world \<Rightarrow> (exn + unit) \<times> world" where
  "os_remove_file E path w =
     (let r = os_remove E (trace w) path;
          w1 = emit (Remove path r) w
      in case r of
           Some errno \<Rightarrow> (Inl (OSError errno), w1)
         | None \<Rightarrow> (Inr (), w1))"

text \<open>
  The context manager, with the body of the \<^verbatim>\<open>with\<close> statement as an argument. The
  mount runs before the \<^verbatim>\<open>try\<close>. The \<^verbatim>\<open>try\<close> block is the read of the PID file and
  the body (the \<^verbatim>\<open>yield\<close>). The \<^verbatim>\<open>finally\<close> block is the unmount and the removal of
  the PID file; an exception of its own replaces the pending one. The call of
  \<^verbatim>\<open>waitpid\<close> comes after the \<^verbatim>\<open>try\<close> statement: it is reached only when no
  exception is pending.
\<close>

definition mountImg ::
  "env \<Rightarrow> string \<Rightarrow> string \<Rightarrow> (string \<Rightarrow> world \<Rightarrow> (exn + 'a) \<times> world) \<Rightarrow> world \<Rightarrow>
   ((exn + 'a) \<times> world) option" where
  "mountImg E imgPath mntPath body w =
     (case run E (mount_cmd imgPath mntPath) logging_DEBUG True no_kwargs w of
        (Inl e, w1) \<Rightarrow> Some (Inl e, w1)
      | (Inr _, w1) \<Rightarrow>
          (let (mntPid, w2) = read_pid E w1;
               (res, w3) = (case mntPid of
                              Inl e \<Rightarrow> (Inl e, w2)
                            | Inr _ \<Rightarrow> body mntPath w2)
           in case run E (unmount_cmd mntPath) logging_DEBUG True no_kwargs w3 of
                (Inl e, w4) \<Rightarrow> Some (Inl e, w4)
              | (Inr _, w4) \<Rightarrow>
                  (case os_remove_file E pid_file w4 of
                     (Inl e, w5) \<Rightarrow> Some (Inl e, w5)
                   | (Inr _, w5) \<Rightarrow>
                       (case (mntPid, res) of
                          (Inr pid, Inr v) \<Rightarrow>
                            (case waitpid E pid w5 of
                               None \<Rightarrow> None
                             | Some (Inl e, w6) \<Rightarrow> Some (Inl e, w6)
                             | Some (Inr _, w6) \<Rightarrow> Some (Inr v, w6))
                        | (Inl e, _) \<Rightarrow> Some (Inl e, w5)
                        | (_, Inl e) \<Rightarrow> Some (Inl e, w5)))))"

section \<open>Initramfs archive\<close>





section \<open>File transfer\<close>

definition direction_msg :: string where
  "direction_msg = ''direction option must be either '' @ [sq] @ ''in'' @ [sq] @ '' or '' @
                   [sq] @ ''out'' @ [sq]"

definition shell_kwargs :: kwargs where
  "shell_kwargs = \<lparr>cwd = None, shell = True\<rparr>"

text \<open>
  The loop over the file specs, inside the mount scope. The path on the image side is the
  plain concatenation \<^verbatim>\<open>mnt + f.dst\<close> (or \<^verbatim>\<open>mnt + f.src\<close>), normalised. The direction is
  compared for each spec, so it is looked at only when there is a spec.
  (\<^verbatim>\<open>uid = os.getuid()\<close> has no effect and its value is not used.)
\<close>

fun copy_loop :: "env \<Rightarrow> FileSpec list \<Rightarrow> string \<Rightarrow> world \<Rightarrow> (exn + unit) \<times> world" where
  "copy_loop E [] direction w = (Inr (), w)"
| "copy_loop E (f # fs) direction w =
     (if direction = ''in'' then
        (case run E (CmdStr (''cp -a '' @ src f @ '' '' @ normpath (mnt E @ dst f)))
                logging_DEBUG True shell_kwargs w of
           (Inl e, w1) \<Rightarrow> (Inl e, w1)
         | (Inr _, w1) \<Rightarrow> copy_loop E fs direction w1)
      else if direction = ''out'' then
        (case run E (CmdStr (''cp -a '' @ normpath (mnt E @ src f) @ '' '' @ dst f))
                logging_DEBUG True shell_kwargs w of
           (Inl e, w1) \<Rightarrow> (Inl e, w1)
         | (Inr _, w1) \<Rightarrow> copy_loop E fs direction w1)
      else (Inl (ValueError direction_msg), w))"

definition copyImgFiles ::
  "env \<Rightarrow> string \<Rightarrow> FileSpec list \<Rightarrow> string \<Rightarrow> world \<Rightarrow> ((exn + unit) \<times> world) option" where
  "copyImgFiles E img files direction w =
     (let ex = path_exists E (trace w) (mnt E);
          w0 = emit (Exists (mnt E) ex) w
      in case (if \<not> ex then run E (CmdArgv [''mkdir'', mnt E]) logging_DEBUG True no_kwargs w0
               else (Inr (), w0)) of
           (Inl e, w1) \<Rightarrow> Some (Inl e, w1)
         | (Inr _, w1) \<Rightarrow> mountImg E img (mnt E) (\<lambda>m. copy_loop E files direction) w1)"


section \<open>One-time initializer\<close>

definition initramfs_dirs :: "string list" where
  "initramfs_dirs = [''bin'', ''dev'', ''etc'', ''proc'', ''root'', ''sbin'', ''sys'',
                     ''usr/bin'', ''usr/sbin'', ''mnt/root'']"

fun make_dirs :: "env \<Rightarrow> string list \<Rightarrow> world \<Rightarrow> (exn + unit) \<times> world" where
  "make_dirs E [] w = (Inr (), w)"
| "make_dirs E (d # ds) w =
     (let p = pathlib_div (initramfs_root E) d;
          ex = path_exists E (trace w) p;
          w1 = emit (Exists p ex) w
      in if \<not> ex then
           (let r = path_mkdir E (trace w1) p;
                w2 = emit (Mkdir p r) w1
            in case r of
                 Some errno \<Rightarrow> (Inl (OSError errno), w2)
               | None \<Rightarrow> make_dirs E ds w2)
         else make_dirs E ds w1)"

definition shutil_copy_file :: "env \<Rightarrow> string \<Rightarrow> string \<Rightarrow> world \<Rightarrow> (exn + unit) \<times> world" where
  "shutil_copy_file E a b w =
     (let r = shutil_copy E (trace w) a b;
          w1 = emit (CopyFile a b r) w
      in case r of
           Some errno \<Rightarrow> (Inl (OSError errno), w1)
         | None \<Rightarrow> (Inr (), w1))"

definition git_apply_cmd :: "string \<Rightarrow> cmd" where
  "git_apply_cmd patch = CmdArgv [''git'', ''apply'', patch]"

text \<open>The loop inside the \<^verbatim>\<open>try\<close>: the first patch that fails ends it.\<close>

fun apply_patches :: "env \<Rightarrow> string list \<Rightarrow> world \<Rightarrow> (exn + unit) \<times> world" where
  "apply_patches E [] w = (Inr (), w)"
| "apply_patches E (patch # ps) w =
     (case run E (git_apply_cmd patch) logging_DEBUG True \<lparr>cwd = Some (linux_dir E), shell = False\<rparr>
             (log_log logging_INFO (''Applying: '' @ patch) w) of
        (Inl e, w1) \<Rightarrow> (Inl e, w1)
      | (Inr _, w1) \<Rightarrow> apply_patches E ps w1)"

definition dirty_msg :: string where
  "dirty_msg = ''Linux source dirty, skipping patches. You should manually check that the following patches have been applied (or are not needed):''"

definition failed_msg :: string where
  "failed_msg = ''Failed to apply patches. If you'' @ [sq] @ ''ve changed the default linux, you should re-evaluate the patches.''"

text \<open>
  Lines 260 to 274: the patches of the board, the dirty check and the two branches. The
  bare \<^verbatim>\<open>except:\<close> catches whatever the loop raised.
\<close>

definition apply_linux_patches :: "env \<Rightarrow> world \<Rightarrow> (exn + unit) \<times> world" where
  "apply_linux_patches E w =
     (let patches = path_glob E (trace w) (board_dir E) ''*.patch'';
          w1 = emit (Glob (board_dir E) ''*.patch'' patches) w;
          opened = git_Repo E (trace w1) (linux_dir E);
          w2 = emit (RepoOpen (linux_dir E) opened) w1
      in case opened of
           Some err \<Rightarrow> (Inl (GitError err), w2)
         | None \<Rightarrow>
             (let dirty = is_dirty E (trace w2) (linux_dir E);
                  w3 = emit (IsDirty (linux_dir E) dirty) w2
              in case dirty of
                   Inl err \<Rightarrow> (Inl (GitError err), w3)
                 | Inr True \<Rightarrow>
                     (Inr (), emit (LogList logging_WARNING patches)
                                (log_log logging_WARNING dirty_msg w3))
                 | Inr False \<Rightarrow>
                     (case apply_patches E patches
                             (log_log logging_INFO
                                ''Applying linux patches to default linux source'' w3) of
                        (Inl e, w4) \<Rightarrow> (Inr (), log_log logging_ERROR failed_msg w4)
                      | (Inr _, w4) \<Rightarrow> (Inr (), w4))))"

definition oneTimeInit :: "env \<Rightarrow> world \<Rightarrow> (exn + unit) \<times> world" where
  "oneTimeInit E w =
     (case make_dirs E initramfs_dirs w of
        (Inl e, w1) \<Rightarrow> (Inl e, w1)
      | (Inr _, w1) \<Rightarrow>
          (case shutil_copy_file E (pathlib_div (wlutil_dir E) ''busybox-config'')
                  (pathlib_div (busybox_dir E) ''.config'')
                  (log_log logging_INFO ''Building busybox (used in initramfs)'' w1) of
             (Inl e, w2) \<Rightarrow> (Inl e, w2)
           | (Inr _, w2) \<Rightarrow>
               (case run E (CmdArgv [''make'', jlevel E]) logging_DEBUG True
                       \<lparr>cwd = Some (busybox_dir E), shell = False\<rparr> w2 of
                  (Inl e, w3) \<Rightarrow> (Inl e, w3)
                | (Inr _, w3) \<Rightarrow>
                    (case shutil_copy_file E (pathlib_div (busybox_dir E) ''busybox'')
                            (pathlib_div (initramfs_root E) ''bin/'') w3 of
                       (Inl e, w4) \<Rightarrow> (Inl e, w4)
                     | (Inr _, w4) \<Rightarrow> apply_linux_patches E w4))))"

section \<open>Reading traces\<close>

text \<open>The events a call added, the commands it spawned, and tests on them.\<close>

definition new_events :: "world \<Rightarrow> world \<Rightarrow> event list" where
  "new_events w w' = drop (length (trace w)) (trace w')"

definition running_msg :: "env \<Rightarrow> cmd \<Rightarrow> kwargs \<Rightarrow> event list \<Rightarrow> string" where
  \<comment> \<open>the line \<^verbatim>\<open>run\<close> logs before it spawns, given the trace at the call\<close>
  "running_msg E a kw t =
     ''Running: '' @ [dq] @ prettyCmd a @ [dq] @ '' in '' @
     (case cwd kw of Some d \<Rightarrow> d | None \<Rightarrow> os_getcwd E t)"

fun popens :: "event list \<Rightarrow> cmd list" where
  "popens [] = []"
| "popens (Popen c k # evs) = c # popens evs"
| "popens (ev # evs) = popens evs"

definition is_mount :: "cmd \<Rightarrow> bool" where
  "is_mount c = (case c of CmdArgv (x # xs) \<Rightarrow> x = ''guestmount'' | _ \<Rightarrow> False)"

definition is_unmount :: "cmd \<Rightarrow> bool" where
  "is_unmount c = (case c of CmdArgv (x # xs) \<Rightarrow> x = ''guestunmount'' | _ \<Rightarrow> False)"

definition is_probe :: "event \<Rightarrow> bool" where
  "is_probe ev = (case ev of Kill pid r \<Rightarrow> True | _ \<Rightarrow> False)"

definition is_direct_spawn :: "event \<Rightarrow> bool" where
  \<comment> \<open>a process started by \<^verbatim>\<open>sp.call\<close>, not by the \<^verbatim>\<open>Popen\<close> inside \<^verbatim>\<open>run\<close>\<close>
  "is_direct_spawn ev = (case ev of SpCall s \<Rightarrow> True | _ \<Rightarrow> False)"

definition run_made :: "event \<Rightarrow> bool" where
  \<comment> \<open>the events of \<^verbatim>\<open>run\<close>: its log lines, its spawn and its wait\<close>
  "run_made ev = (case ev of LogMsg l m \<Rightarrow> True | Popen c k \<Rightarrow> True | Wait c rc \<Rightarrow> True
                  | _ \<Rightarrow> False)"

definition is_shell_cmd :: "cmd \<Rightarrow> bool" where
  "is_shell_cmd c = (case c of CmdStr s \<Rightarrow> True | CmdArgv xs \<Rightarrow> False)"

definition is_poll_event :: "event \<Rightarrow> bool" where
  "is_poll_event ev = (case ev of Kill p r \<Rightarrow> True | Sleep d \<Rightarrow> True | _ \<Rightarrow> False)"

text \<open>One round of the poller on a process that is still there, and the test that ends it.\<close>

definition gone :: "env \<Rightarrow> int \<Rightarrow> world \<Rightarrow> bool" where
  "gone E pid w = (os_kill E (trace w) pid = Some ESRCH)"

definition poll_once :: "env \<Rightarrow> int \<Rightarrow> world \<Rightarrow> world" where
  "poll_once E pid w = emit (Sleep 250) (emit (Kill pid (os_kill E (trace w) pid)) w)"

text \<open>
  The shape of a finished poll: probes of the one PID, a sleep of 250 ms after each probe
  that did not answer \<^verbatim>\<open>ESRCH\<close>, and the \<^verbatim>\<open>ESRCH\<close> probe last.
\<close>

fun poll_shape :: "int \<Rightarrow> event list \<Rightarrow> bool" where
  "poll_shape pid [Kill p r] = (p = pid \<and> r = Some ESRCH)"
| "poll_shape pid (Kill p r # Sleep d # evs) =
     (p = pid \<and> r \<noteq> Some ESRCH \<and> d = 250 \<and> poll_shape pid evs)"
| "poll_shape pid evs = False"

text \<open>
  The name of the configuration in a run name: empty for no path, else the base name of
  the path without its extension.
\<close>

definition configName_of :: "string option \<Rightarrow> string" where
  "configName_of configPath = (case configPath of None \<Rightarrow> [] | Some p \<Rightarrow> fst (splitext (basename p)))"



text \<open>Tests on the events of the one-time initializer.\<close>

definition is_git_apply :: "cmd \<Rightarrow> bool" where
  "is_git_apply c = (case c of CmdArgv (x # y # xs) \<Rightarrow> x = ''git'' \<and> y = ''apply'' | _ \<Rightarrow> False)"

definition setup_event :: "env \<Rightarrow> event \<Rightarrow> bool" where
  \<comment> \<open>the events of the steps before the patches: directories, busybox\<close>
  "setup_event E ev =
     (case ev of
        Exists p b \<Rightarrow> True
      | Mkdir p r \<Rightarrow> True
      | CopyFile a b r \<Rightarrow> True
      | LogMsg l m \<Rightarrow> l = logging_DEBUG \<or> l = logging_INFO
      | Popen c k \<Rightarrow> c = CmdArgv [''make'', jlevel E]
      | Wait c rc \<Rightarrow> c = CmdArgv [''make'', jlevel E]
      | _ \<Rightarrow> False)"

definition patch_event :: "event \<Rightarrow> bool" where
  \<comment> \<open>the events of the loop over the patches\<close>
  "patch_event ev =
     (case ev of
        LogMsg l m \<Rightarrow> l = logging_DEBUG \<or> l = logging_INFO
      | Popen c k \<Rightarrow> is_git_apply c
      | Wait c rc \<Rightarrow> is_git_apply c
      | _ \<Rightarrow> False)"

definition patches_msg :: string where
  "patches_msg = ''Applying linux patches to default linux source''"

section \<open>Example environments\<close>

text \<open>
  A machine on which everything works: every command exits with 0 and prints nothing, the
  PID file holds 4242, the mount process is gone at the first probe, the kernel tree is
  clean and the board has two patches.
\<close>

definition calm_env :: env where
  "calm_env =
     \<lparr>root_dir = ''/work'', wlutil_dir = ''/work/wlutil'', jlevel = ''-j4'',
      os_getcwd = (\<lambda>t. ''/work''),
      sp_Popen = (\<lambda>t c k. Inr ([], 0)),
      sp_call = (\<lambda>t s. Inr 0),
      os_kill = (\<lambda>t pid. Some ESRCH),
      open_readline = (\<lambda>t p. Inr (''4242'' @ [CHR 0x0A])),
      os_remove = (\<lambda>t p. None),
      path_exists = (\<lambda>t p. True),
      path_mkdir = (\<lambda>t p. None),
      shutil_copy = (\<lambda>t a b. None),
      path_glob = (\<lambda>t d p. [''/work/boards/firechip/a.patch'', ''/work/boards/firechip/b.patch'']),
      git_Repo = (\<lambda>t p. None),
      is_dirty = (\<lambda>t p. Inr False),
      time_gmtime = (\<lambda>t. \<lparr>tm_year = 2019, tm_mon = 3, tm_mday = 9, tm_hour = 7,
                            tm_min = 5, tm_sec = 30\<rparr>),
      random_below = (\<lambda>t n. length t)\<rparr>"

definition w0 :: world where
  "w0 = \<lparr>trace = [], runName = []\<rparr>"

text \<open>The same machine with a command that prints one line and exits with 2.\<close>

definition failing_env :: env where
  "failing_env = calm_env\<lparr>sp_Popen := (\<lambda>t c k. Inr ([''oops'' @ [CHR 0x0A]], 2))\<rparr>"

text \<open>
  The same machine with a mount process that lingers: the first probe finds it, the
  second is refused with \<^verbatim>\<open>EPERM\<close>, the third finds it gone.
\<close>

definition lingering_env :: env where
  "lingering_env =
     calm_env\<lparr>os_kill := (\<lambda>t pid. case length (filter is_probe t) of
                                     0 \<Rightarrow> None
                                   | Suc 0 \<Rightarrow> Some EPERM
                                   | _ \<Rightarrow> Some ESRCH)\<rparr>"

text \<open>Three file specs for the examples.\<close>

definition three_files :: "FileSpec list" where
  "three_files = [\<lparr>src = ''a.txt'', dst = ''/etc/a.txt''\<rparr>, \<lparr>src = ''overlay/*'', dst = ''/''\<rparr>,
                  \<lparr>src = ''b'', dst = ''/usr/../b''\<rparr>]"

text \<open>The calm machine with a kernel tree that has local changes.\<close>

definition dirty_env :: env where
  "dirty_env = calm_env\<lparr>is_dirty := (\<lambda>t p. Inr True)\<rparr>"

text \<open>The calm machine with three patches, the second of which does not apply.\<close>

definition flaky_env :: env where
  "flaky_env =
     calm_env\<lparr>path_glob := (\<lambda>t d p. [''a.patch'', ''b.patch'', ''c.patch'']),
               sp_Popen := (\<lambda>t c k. if c = git_apply_cmd ''b.patch''
                                      then Inr ([''error: patch failed'' @ [CHR 0x0A]], 1)
                                      else Inr ([], 0))\<rparr>"

text \<open>The calm machine with a random source that always draws index 0.\<close>

definition stuck_env :: env where
  "stuck_env = calm_env\<lparr>random_below := (\<lambda>t n. 0)\<rparr>"

section \<open>Basic facts\<close>

lemma trace_emit [simp]: "trace (emit ev w) = trace w @ [ev]"
  by (simp add: emit_def)

lemma runName_emit [simp]: "runName (emit ev w) = runName w"
  by (simp add: emit_def)

lemma trace_log_log [simp]: "trace (log_log l m w) = trace w @ [LogMsg l m]"
  by (simp add: log_log_def)

lemma runName_log_log [simp]: "runName (log_log l m w) = runName w"
  by (simp add: log_log_def)

lemma trace_fold_log:
  "trace (fold (\<lambda>line. log_log l (f line)) ls w) = trace w @ map (\<lambda>line. LogMsg l (f line)) ls"
  by (induction ls arbitrary: w) simp_all

lemma runName_fold_log [simp]:
  "runName (fold (\<lambda>line. log_log l (f line)) ls w) = runName w"
  by (induction ls arbitrary: w) simp_all

lemma new_events_append [simp]: "trace w' = trace w @ evs \<Longrightarrow> new_events w w' = evs"
  by (simp add: new_events_def)

lemmas eval_defs = calm_env_def failing_env_def lingering_env_def w0_def no_kwargs_def
  shell_kwargs_def new_events_def emit_def log_log_def Let_def prettyCmd_def running_msg_def
  logging_DEBUG_def logging_INFO_def logging_WARNING_def logging_ERROR_def

section \<open>The command runner\<close>

text \<open>What one call of \<^verbatim>\<open>run\<close> returns and appends, by the answer of the spawn.\<close>

lemma run_spawn_fails:
  assumes "sp_Popen E (trace w @ [LogMsg lv (running_msg E a kw (trace w))]) a kw = Inl errno"
  shows "fst (run E a lv chk kw w) = Inl (OSError errno)"
    and "trace (snd (run E a lv chk kw w)) =
           trace w @ [LogMsg lv (running_msg E a kw (trace w)), Popen a kw]"
    and "runName (snd (run E a lv chk kw w)) = runName w"
  using assms by (auto simp: run_def running_msg_def Let_def split: option.splits)

lemma run_spawned:
  assumes "sp_Popen E (trace w @ [LogMsg lv (running_msg E a kw (trace w))]) a kw = Inr (out, rc)"
  shows "fst (run E a lv chk kw w) =
           (if chk \<and> rc \<noteq> 0 then Inl (CalledProcessError rc (prettyCmd a)) else Inr ())"
    and "trace (snd (run E a lv chk kw w)) =
           trace w @ [LogMsg lv (running_msg E a kw (trace w)), Popen a kw] @
           map (\<lambda>line. LogMsg lv (str_strip line)) (takeWhile (\<lambda>line. line \<noteq> []) out) @
           [Wait a rc]"
    and "runName (snd (run E a lv chk kw w)) = runName w"
  using assms by (auto simp: run_def running_msg_def Let_def trace_fold_log split: option.splits)

text \<open>
  Claim C2. When \<^verbatim>\<open>check\<close> is true and the spawned process exits with a nonzero code
  (the trace of the call shows \<^verbatim>\<open>p.wait()\<close> leaving that code), \<^verbatim>\<open>run\<close> raises
  \<^verbatim>\<open>CalledProcessError\<close> with that very code and the pretty command string. When
  \<^verbatim>\<open>check\<close> is false, \<^verbatim>\<open>run\<close> returns normally whatever the exit code is, and it
  raises no \<^verbatim>\<open>CalledProcessError\<close> in any environment.
\<close>

theorem run_check_failure:
  "(Wait a rc \<in> set (new_events w (snd (run E a lv True kw w))) \<and> rc \<noteq> 0 \<longrightarrow>
      fst (run E a lv True kw w) = Inl (CalledProcessError rc (prettyCmd a))) \<and>
   (Wait a rc \<in> set (new_events w (snd (run E a lv False kw w))) \<longrightarrow>
      fst (run E a lv False kw w) = Inr ()) \<and>
   (\<forall>rc' c'. fst (run E a lv False kw w) \<noteq> Inl (CalledProcessError rc' c'))"
proof (cases "sp_Popen E (trace w @ [LogMsg lv (running_msg E a kw (trace w))]) a kw")
  case (Inl errno)
  from run_spawn_fails [OF Inl] show ?thesis by auto
next
  case (Inr res)
  obtain out rc0 where res: "res = (out, rc0)" by (cases res)
  from run_spawned [OF Inr [unfolded res]] show ?thesis by auto
qed

theorem run_check_failure_witness:
  "Wait (CmdArgv [''false'']) 2 \<in>
     set (new_events w0 (snd (run failing_env (CmdArgv [''false'']) logging_DEBUG True no_kwargs w0))) \<and>
   (2::int) \<noteq> 0 \<and>
   fst (run failing_env (CmdArgv [''false'']) logging_DEBUG True no_kwargs w0) =
     Inl (CalledProcessError 2 ''false'') \<and>
   Wait (CmdArgv [''false'']) 2 \<in>
     set (new_events w0 (snd (run failing_env (CmdArgv [''false'']) logging_DEBUG False no_kwargs w0))) \<and>
   fst (run failing_env (CmdArgv [''false'']) logging_DEBUG False no_kwargs w0) = Inr ()"
  using run_check_failure [of "CmdArgv [''false'']" 2 w0 failing_env logging_DEBUG no_kwargs]
  by (simp add: run_def eval_defs)

section \<open>The liveness poller\<close>

lemma waitpid_gone:
  "gone E pid w \<Longrightarrow> waitpid E pid w = Some (Inr (), emit (Kill pid (Some ESRCH)) w)"
  by (subst waitpid.simps) (simp add: gone_def)

lemma waitpid_alive:
  "\<not> gone E pid w \<Longrightarrow> waitpid E pid w = waitpid E pid (poll_once E pid w)"
  by (subst waitpid.simps) (auto simp: gone_def poll_once_def Let_def split: option.splits)

lemma waitpid_rounds:
  "(\<forall>k<n. \<not> gone E pid ((poll_once E pid ^^ k) w)) \<Longrightarrow>
   waitpid E pid w = waitpid E pid ((poll_once E pid ^^ n) w)"
proof (induction n)
  case 0
  show ?case by simp
next
  case (Suc n)
  then have "waitpid E pid w = waitpid E pid ((poll_once E pid ^^ n) w)" by simp
  also from Suc.prems have "\<not> gone E pid ((poll_once E pid ^^ n) w)" by simp
  then have "waitpid E pid ((poll_once E pid ^^ n) w) =
             waitpid E pid ((poll_once E pid ^^ Suc n) w)"
    by (simp add: waitpid_alive)
  finally show ?case .
qed

lemma waitpid_returned:
  assumes "waitpid E pid w = Some res"
  shows "\<exists>n. (\<forall>k<n. \<not> gone E pid ((poll_once E pid ^^ k) w)) \<and>
       gone E pid ((poll_once E pid ^^ n) w) \<and>
       res = (Inr (), emit (Kill pid (Some ESRCH)) ((poll_once E pid ^^ n) w))"
proof -
  define P where "P = (\<lambda>E pid w res. \<exists>n. (\<forall>k<n. \<not> gone E pid ((poll_once E pid ^^ k) w)) \<and>
       gone E pid ((poll_once E pid ^^ n) w) \<and>
       res = (Inr () :: exn + unit, emit (Kill pid (Some ESRCH)) ((poll_once E pid ^^ n) w)))"
  have "P E pid w res"
  proof (rule waitpid.raw_induct [where P = P, OF _ assms])
    fix wp E pid w res
    assume IH: "\<And>E' pid' w' res'. wp E' pid' w' = Some res' \<Longrightarrow> P E' pid' w' res'"
    assume body: "(let r = os_kill E (trace w) pid; w1 = emit (Kill pid r) w
        in case r of None \<Rightarrow> wp E pid (emit (Sleep 250) w1)
           | Some errno \<Rightarrow>
               if errno = ESRCH then Some (Inr (), w1)
               else wp E pid (emit (Sleep 250) w1)) = Some res"
    show "P E pid w res"
    proof (cases "gone E pid w")
      case True
      with body have "res = (Inr (), emit (Kill pid (Some ESRCH)) w)"
        by (simp add: gone_def)
      with True show ?thesis unfolding P_def by (intro exI [of _ 0]) simp
    next
      case False
      with body have "wp E pid (poll_once E pid w) = Some res"
        by (cases "os_kill E (trace w) pid") (simp_all add: gone_def poll_once_def)
      from IH [OF this] obtain n where
        nn: "(\<forall>k<n. \<not> gone E pid ((poll_once E pid ^^ k) (poll_once E pid w))) \<and>
           gone E pid ((poll_once E pid ^^ n) (poll_once E pid w)) \<and>
           res = (Inr (), emit (Kill pid (Some ESRCH)) ((poll_once E pid ^^ n) (poll_once E pid w)))"
        unfolding P_def ..
      note n = conjunct1 [OF nn] conjunct1 [OF conjunct2 [OF nn]] conjunct2 [OF conjunct2 [OF nn]]
      have "\<forall>k<Suc n. \<not> gone E pid ((poll_once E pid ^^ k) w)"
      proof (intro allI impI)
        fix k assume "k < Suc n"
        show "\<not> gone E pid ((poll_once E pid ^^ k) w)"
        proof (cases k)
          case 0
          with False show ?thesis by simp
        next
          case (Suc j)
          with \<open>k < Suc n\<close> n(1) show ?thesis by (simp add: funpow_swap1)
        qed
      qed
      with n(2,3) show ?thesis unfolding P_def
        by (intro exI [of _ "Suc n"]) (simp add: funpow_swap1)
    qed
  qed
  then show ?thesis unfolding P_def .
qed

text \<open>
  Claim C6. \<^verbatim>\<open>waitpid(pid)\<close> returns exactly when a probe reports the process gone:
  it returns if and only if some round \<open>n\<close> is the first whose probe answers
  \<^verbatim>\<open>ESRCH\<close>, and then it has made \<open>n\<close> rounds of probe and 250 ms sleep followed by
  the last probe alone. For a process that is already gone it returns after the first probe,
  having appended that probe and no sleep.
\<close>

theorem waitpid_returns_when_gone:
  "(waitpid E pid w = Some res \<longleftrightarrow>
      (\<exists>n. (\<forall>k<n. \<not> gone E pid ((poll_once E pid ^^ k) w)) \<and>
           gone E pid ((poll_once E pid ^^ n) w) \<and>
           res = (Inr (), emit (Kill pid (Some ESRCH)) ((poll_once E pid ^^ n) w)))) \<and>
   (gone E pid w \<longrightarrow>
      waitpid E pid w = Some (Inr (), w\<lparr>trace := trace w @ [Kill pid (Some ESRCH)]\<rparr>))"
proof (intro conjI iffI impI)
  assume "waitpid E pid w = Some res"
  then show "\<exists>n. (\<forall>k<n. \<not> gone E pid ((poll_once E pid ^^ k) w)) \<and>
           gone E pid ((poll_once E pid ^^ n) w) \<and>
           res = (Inr (), emit (Kill pid (Some ESRCH)) ((poll_once E pid ^^ n) w))"
    by (rule waitpid_returned)
next
  assume "\<exists>n. (\<forall>k<n. \<not> gone E pid ((poll_once E pid ^^ k) w)) \<and>
           gone E pid ((poll_once E pid ^^ n) w) \<and>
           res = (Inr (), emit (Kill pid (Some ESRCH)) ((poll_once E pid ^^ n) w))"
  then obtain n where nn: "(\<forall>k<n. \<not> gone E pid ((poll_once E pid ^^ k) w)) \<and>
      gone E pid ((poll_once E pid ^^ n) w) \<and>
      res = (Inr (), emit (Kill pid (Some ESRCH)) ((poll_once E pid ^^ n) w))" ..
  note n = conjunct1 [OF nn] conjunct1 [OF conjunct2 [OF nn]] conjunct2 [OF conjunct2 [OF nn]]
  from waitpid_rounds [OF n(1)] waitpid_gone [OF n(2)] n(3)
  show "waitpid E pid w = Some res" by simp
next
  assume "gone E pid w"
  then show "waitpid E pid w = Some (Inr (), w\<lparr>trace := trace w @ [Kill pid (Some ESRCH)]\<rparr>)"
    by (simp add: waitpid_gone emit_def)
qed

theorem waitpid_returns_when_gone_witness:
  "\<not> gone lingering_env 4242 w0 \<and>
   \<not> gone lingering_env 4242 (poll_once lingering_env 4242 w0) \<and>
   gone lingering_env 4242 ((poll_once lingering_env 4242 ^^ 2) w0) \<and>
   waitpid lingering_env 4242 w0 =
     Some (Inr (), \<lparr>trace = [Kill 4242 None, Sleep 250, Kill 4242 (Some EPERM), Sleep 250,
                              Kill 4242 (Some ESRCH)], runName = []\<rparr>) \<and>
   gone calm_env 4242 w0 \<and>
   waitpid calm_env 4242 w0 = Some (Inr (), \<lparr>trace = [Kill 4242 (Some ESRCH)], runName = []\<rparr>)"
proof -
  let ?res = "(Inr () :: exn + unit, \<lparr>trace = [Kill 4242 None, Sleep 250, Kill 4242 (Some EPERM),
                 Sleep 250, Kill 4242 (Some ESRCH)], runName = []\<rparr>)"
  have alive: "\<forall>k<2. \<not> gone lingering_env 4242 ((poll_once lingering_env 4242 ^^ k) w0)"
    by (simp add: less_Suc_eq numeral_2_eq_2 gone_def poll_once_def lingering_env_def
          w0_def is_probe_def ESRCH_def EPERM_def)
  have dead: "gone lingering_env 4242 ((poll_once lingering_env 4242 ^^ 2) w0)"
    by (simp add: numeral_2_eq_2 gone_def poll_once_def lingering_env_def w0_def is_probe_def)
  have last: "?res = (Inr (), emit (Kill 4242 (Some ESRCH)) ((poll_once lingering_env 4242 ^^ 2) w0))"
    by (simp add: numeral_2_eq_2 poll_once_def lingering_env_def w0_def is_probe_def emit_def
          EPERM_def)
  have calm: "gone calm_env 4242 w0"
    by (simp add: gone_def calm_env_def)
  have ex: "\<exists>n. (\<forall>k<n. \<not> gone lingering_env 4242 ((poll_once lingering_env 4242 ^^ k) w0)) \<and>
           gone lingering_env 4242 ((poll_once lingering_env 4242 ^^ n) w0) \<and>
           ?res = (Inr (), emit (Kill 4242 (Some ESRCH)) ((poll_once lingering_env 4242 ^^ n) w0))"
    using alive dead last by (intro exI [of _ 2] conjI)
  have "waitpid lingering_env 4242 w0 = Some ?res"
    using waitpid_returns_when_gone [of lingering_env 4242 w0 ?res, THEN conjunct1] ex
    by (rule iffD2)
  moreover have "waitpid calm_env 4242 w0 =
      Some (Inr (), \<lparr>trace = [Kill 4242 (Some ESRCH)], runName = []\<rparr>)"
    using waitpid_returns_when_gone [of calm_env 4242 w0, THEN conjunct2, rule_format, OF calm]
    by (simp add: w0_def)
  moreover from alive have "\<not> gone lingering_env 4242 w0"
    and "\<not> gone lingering_env 4242 (poll_once lingering_env 4242 w0)"
    by (simp_all add: less_Suc_eq numeral_2_eq_2)
  ultimately show ?thesis using dead calm by (intro conjI)
qed

text \<open>A process that never goes away keeps the poller from returning.\<close>

lemma waitpid_never_gone:
  "(\<forall>n. \<not> gone E pid ((poll_once E pid ^^ n) w)) \<Longrightarrow> waitpid E pid w = None"
  using waitpid_returned [of E pid w] by (cases "waitpid E pid w") auto

lemma rounds_shape:
  "(\<forall>k<n. \<not> gone E pid ((poll_once E pid ^^ k) w)) \<Longrightarrow>
   \<exists>evs. trace ((poll_once E pid ^^ n) w) = trace w @ evs \<and>
         runName ((poll_once E pid ^^ n) w) = runName w \<and>
         (\<forall>rest. poll_shape pid (evs @ rest) = poll_shape pid rest)"
proof (induction n arbitrary: w)
  case 0
  show ?case by simp
next
  case (Suc n)
  from Suc.prems [rule_format, of 0] have alive: "\<not> gone E pid w" by simp
  have "\<forall>k<n. \<not> gone E pid ((poll_once E pid ^^ k) (poll_once E pid w))"
  proof (intro allI impI)
    fix k assume "k < n"
    with Suc.prems [rule_format, of "Suc k"] show "\<not> gone E pid ((poll_once E pid ^^ k) (poll_once E pid w))"
      by (simp add: funpow_swap1)
  qed
  from Suc.IH [OF this] obtain evs where
    ee: "trace ((poll_once E pid ^^ n) (poll_once E pid w)) = trace (poll_once E pid w) @ evs \<and>
         runName ((poll_once E pid ^^ n) (poll_once E pid w)) = runName (poll_once E pid w) \<and>
         (\<forall>rest. poll_shape pid (evs @ rest) = poll_shape pid rest)" ..
  note evs = conjunct1 [OF ee] conjunct1 [OF conjunct2 [OF ee]] conjunct2 [OF conjunct2 [OF ee]]
  let ?evs = "[Kill pid (os_kill E (trace w) pid), Sleep 250] @ evs"
  have "trace ((poll_once E pid ^^ Suc n) w) = trace w @ ?evs"
    using evs(1) by (simp add: funpow_swap1 poll_once_def)
  moreover have "runName ((poll_once E pid ^^ Suc n) w) = runName w"
    using evs(2) by (simp add: funpow_swap1 poll_once_def)
  moreover have "\<forall>rest. poll_shape pid (?evs @ rest) = poll_shape pid rest"
    using evs(3) alive by (simp add: gone_def)
  ultimately show ?case by (intro exI [of _ ?evs] conjI)
qed

lemma waitpid_frame:
  assumes ret: "waitpid E pid w = Some (r, w')"
  shows "\<exists>evs. r = Inr () \<and> trace w' = trace w @ evs \<and> runName w' = runName w \<and>
               poll_shape pid evs"
proof -
  from waitpid_returned [OF ret] obtain n where
    nn: "(\<forall>k<n. \<not> gone E pid ((poll_once E pid ^^ k) w)) \<and>
         gone E pid ((poll_once E pid ^^ n) w) \<and>
         (r, w') = (Inr (), emit (Kill pid (Some ESRCH)) ((poll_once E pid ^^ n) w))" ..
  then have n: "\<forall>k<n. \<not> gone E pid ((poll_once E pid ^^ k) w)"
       "r = Inr ()" "w' = emit (Kill pid (Some ESRCH)) ((poll_once E pid ^^ n) w)"
    by simp_all
  from rounds_shape [OF n(1)] obtain evs where
    ee: "trace ((poll_once E pid ^^ n) w) = trace w @ evs \<and>
         runName ((poll_once E pid ^^ n) w) = runName w \<and>
         (\<forall>rest. poll_shape pid (evs @ rest) = poll_shape pid rest)" ..
  from n(3) ee have "trace w' = trace w @ (evs @ [Kill pid (Some ESRCH)])"
    and "runName w' = runName w" and "poll_shape pid (evs @ [Kill pid (Some ESRCH)])"
    by simp_all
  with n(2) show ?thesis by (intro exI [of _ "evs @ [Kill pid (Some ESRCH)]"] conjI)
qed



section \<open>Frames: what each call adds to the trace\<close>

lemma popens_append [simp]: "popens (xs @ ys) = popens xs @ popens ys"
  by (induction xs rule: popens.induct) simp_all

lemma popens_logs [simp]: "popens (map (\<lambda>line. LogMsg l (f line)) ls) = []"
  by (induction ls) simp_all

lemma run_made_logs [simp]: "list_all run_made (map (\<lambda>line. LogMsg l (f line)) ls)"
  by (induction ls) (simp_all add: run_made_def)

lemma wait_not_in_logs [simp]: "Wait a rc \<notin> set (map (\<lambda>line. LogMsg l (f line)) ls)"
  by (induction ls) simp_all

text \<open>What a call of \<^verbatim>\<open>run\<close> adds to the trace, in every case.\<close>

lemma run_frame:
  assumes "run E a lv chk kw w = (r, w')"
  shows "\<exists>evs. trace w' = trace w @ evs \<and> runName w' = runName w \<and> popens evs = [a] \<and>
               list_all run_made evs \<and>
               (\<forall>c rc. Wait c rc \<in> set evs \<longrightarrow> c = a) \<and>
               (r = Inr () \<and> chk \<longrightarrow> Wait a 0 \<in> set evs) \<and>
               (Wait a 0 \<in> set evs \<longrightarrow> r = Inr ()) \<and>
               (\<forall>e. r = Inl e \<longrightarrow> (\<exists>n. e = OSError n) \<or> (\<exists>rc. e = CalledProcessError rc (prettyCmd a)))"
proof (cases "sp_Popen E (trace w @ [LogMsg lv (running_msg E a kw (trace w))]) a kw")
  case (Inl errno)
  from run_spawn_fails [OF Inl, of chk] assms
  have "r = Inl (OSError errno)"
    and "trace w' = trace w @ [LogMsg lv (running_msg E a kw (trace w)), Popen a kw]"
    and "runName w' = runName w"
    by simp_all
  then show ?thesis
    by (intro exI [of _ "[LogMsg lv (running_msg E a kw (trace w)), Popen a kw]"])
       (simp add: run_made_def)
next
  case (Inr res)
  obtain out rc where res: "res = (out, rc)" by (cases res)
  let ?evs = "[LogMsg lv (running_msg E a kw (trace w)), Popen a kw] @
           map (\<lambda>line. LogMsg lv (str_strip line)) (takeWhile (\<lambda>line. line \<noteq> []) out) @
           [Wait a rc]"
  from run_spawned [OF Inr [unfolded res], of chk] assms
  have "r = (if chk \<and> rc \<noteq> 0 then Inl (CalledProcessError rc (prettyCmd a)) else Inr ())"
    and "trace w' = trace w @ ?evs"
    and "runName w' = runName w"
    by simp_all
  then show ?thesis
    by (intro exI [of _ ?evs]) (auto simp: run_made_def)
qed

lemma read_pid_frame:
  assumes "read_pid E w = (r, w')"
  shows "\<exists>x. trace w' = trace w @ [ReadLine pid_file x] \<and> runName w' = runName w \<and>
             (\<forall>e. r = Inl e \<longrightarrow> (\<exists>n. e = OSError n) \<or> (\<exists>s. e = ValueError (int_msg s)))"
  using assms
  by (auto simp: read_pid_def Let_def py_int_def split: sum.splits list.splits option.splits if_splits)

lemma os_remove_frame:
  assumes "os_remove_file E p w = (r, w')"
  shows "\<exists>x. trace w' = trace w @ [Remove p x] \<and> runName w' = runName w \<and>
             (r = Inr () \<longleftrightarrow> x = None) \<and> (\<forall>e. r = Inl e \<longrightarrow> (\<exists>n. e = OSError n))"
  using assms by (auto simp: os_remove_file_def Let_def split: option.splits)


lemma poll_shape_events: "poll_shape pid evs \<Longrightarrow> list_all is_poll_event evs"
  by (induction pid evs rule: poll_shape.induct) (simp_all add: is_poll_event_def)

lemma poll_events_popens: "list_all is_poll_event evs \<Longrightarrow> popens evs = []"
  by (induction evs rule: popens.induct) (simp_all add: is_poll_event_def)

lemma poll_events_no_wait: "list_all is_poll_event evs \<Longrightarrow> Wait c rc \<notin> set evs"
  by (induction evs) (auto simp: is_poll_event_def)

lemma poll_events_not_direct:
  "list_all is_poll_event evs \<Longrightarrow> list_all (\<lambda>e. \<not> is_direct_spawn e) evs"
  by (induction evs) (auto simp: is_poll_event_def is_direct_spawn_def split: event.splits)

lemma run_made_not_direct:
  "list_all run_made evs \<Longrightarrow> list_all (\<lambda>e. \<not> is_direct_spawn e) evs"
  by (induction evs) (auto simp: run_made_def is_direct_spawn_def split: event.splits)

lemma mountImg_cases:
  assumes "mountImg E img m body w = Some (r, w')"
  shows "(\<exists>e. run E (mount_cmd img m) logging_DEBUG True no_kwargs w = (Inl e, w') \<and> r = Inl e) \<or>
         (\<exists>w1 pidr w2 res w3 ru w4.
             run E (mount_cmd img m) logging_DEBUG True no_kwargs w = (Inr (), w1) \<and>
             read_pid E w1 = (pidr, w2) \<and>
             (case pidr of Inl e \<Rightarrow> res = Inl e \<and> w3 = w2 | Inr _ \<Rightarrow> body m w2 = (res, w3)) \<and>
             run E (unmount_cmd m) logging_DEBUG True no_kwargs w3 = (ru, w4) \<and>
             (case ru of
                Inl e \<Rightarrow> r = Inl e \<and> w' = w4
              | Inr _ \<Rightarrow>
                  (\<exists>rr w5. os_remove_file E pid_file w4 = (rr, w5) \<and>
                     (case rr of
                        Inl e \<Rightarrow> r = Inl e \<and> w' = w5
                      | Inr _ \<Rightarrow>
                          (case res of
                             Inl e \<Rightarrow> r = Inl e \<and> w' = w5
                           | Inr v \<Rightarrow> (\<exists>pid. pidr = Inr pid \<and>
                                          waitpid E pid w5 = Some (Inr (), w') \<and> r = Inr v))))))"
proof (cases "run E (mount_cmd img m) logging_DEBUG True no_kwargs w")
  case (Pair rm w1)
  show ?thesis
  proof (cases rm)
    case (Inl e)
    with Pair assms show ?thesis by (simp add: mountImg_def)
  next
    case (Inr u)
    obtain pidr w2 where rp: "read_pid E w1 = (pidr, w2)" by (cases "read_pid E w1")
    obtain res w3 where tr: "(case pidr of Inl e \<Rightarrow> (Inl e, w2) | Inr _ \<Rightarrow> body m w2) = (res, w3)"
      by (cases "(case pidr of Inl e \<Rightarrow> (Inl e, w2) | Inr _ \<Rightarrow> body m w2)")
    obtain ru w4 where um: "run E (unmount_cmd m) logging_DEBUG True no_kwargs w3 = (ru, w4)"
      by (cases "run E (unmount_cmd m) logging_DEBUG True no_kwargs w3")
    obtain rr w5 where rmv: "os_remove_file E pid_file w4 = (rr, w5)"
      by (cases "os_remove_file E pid_file w4")
    from tr have tr': "(case pidr of Inl e \<Rightarrow> res = Inl e \<and> w3 = w2 | Inr _ \<Rightarrow> body m w2 = (res, w3))"
      by (cases pidr) auto
    from assms Pair Inr rp tr um rmv
    have fin: "(case ru of
                Inl e \<Rightarrow> r = Inl e \<and> w' = w4
              | Inr _ \<Rightarrow>
                     (case rr of
                        Inl e \<Rightarrow> r = Inl e \<and> w' = w5
                      | Inr _ \<Rightarrow>
                          (case res of
                             Inl e \<Rightarrow> r = Inl e \<and> w' = w5
                           | Inr v \<Rightarrow> (\<exists>pid. pidr = Inr pid \<and>
                                          waitpid E pid w5 = Some (Inr (), w') \<and> r = Inr v))))"
      by (auto simp: mountImg_def split: sum.splits option.splits prod.splits dest: waitpid_frame)
    have "\<exists>w1 pidr w2 res w3 ru w4.
             run E (mount_cmd img m) logging_DEBUG True no_kwargs w = (Inr (), w1) \<and>
             read_pid E w1 = (pidr, w2) \<and>
             (case pidr of Inl e \<Rightarrow> res = Inl e \<and> w3 = w2 | Inr _ \<Rightarrow> body m w2 = (res, w3)) \<and>
             run E (unmount_cmd m) logging_DEBUG True no_kwargs w3 = (ru, w4) \<and>
             (case ru of
                Inl e \<Rightarrow> r = Inl e \<and> w' = w4
              | Inr _ \<Rightarrow>
                  (\<exists>rr w5. os_remove_file E pid_file w4 = (rr, w5) \<and>
                     (case rr of
                        Inl e \<Rightarrow> r = Inl e \<and> w' = w5
                      | Inr _ \<Rightarrow>
                          (case res of
                             Inl e \<Rightarrow> r = Inl e \<and> w' = w5
                           | Inr v \<Rightarrow> (\<exists>pid. pidr = Inr pid \<and>
                                          waitpid E pid w5 = Some (Inr (), w') \<and> r = Inr v)))))"
      apply (rule exI [of _ w1], rule exI [of _ pidr], rule exI [of _ w2], rule exI [of _ res],
             rule exI [of _ w3], rule exI [of _ ru], rule exI [of _ w4])
      using Pair Inr rp tr' um rmv fin by (auto split: sum.splits)
    then show ?thesis ..
  qed
qed


lemma cleanup_frame:
  assumes um: "run E (unmount_cmd m) logging_DEBUG True no_kwargs w3 = (ru, w4)"
    and fin: "(case ru of
                Inl e \<Rightarrow> r = Inl e \<and> w' = w4
              | Inr _ \<Rightarrow>
                  (\<exists>rr w5. os_remove_file E pid_file w4 = (rr, w5) \<and>
                     (case rr of
                        Inl e \<Rightarrow> r = Inl e \<and> w' = w5
                      | Inr _ \<Rightarrow>
                          (case res of
                             Inl e \<Rightarrow> r = Inl e \<and> w' = w5
                           | Inr v \<Rightarrow> (\<exists>pid. pidr = Inr pid \<and>
                                          waitpid E pid w5 = Some (Inr (), w') \<and> r = Inr v)))))"
  shows "\<exists>post. trace w' = trace w3 @ post \<and> runName w' = runName w3 \<and>
           popens post = [unmount_cmd m] \<and> list_all (\<lambda>e. \<not> is_direct_spawn e) post \<and>
           (\<forall>e. r = Inl e \<longrightarrow> (\<exists>n. e = OSError n) \<or> (\<exists>rc c. e = CalledProcessError rc c) \<or>
                               res = Inl e) \<and>
           (\<forall>v. r = Inr v \<longrightarrow> res = Inr v)"
proof -
  from run_frame [OF um] obtain evs4 where
    e4: "trace w4 = trace w3 @ evs4" "runName w4 = runName w3" "popens evs4 = [unmount_cmd m]"
        "list_all run_made evs4"
        "\<forall>e. ru = Inl e \<longrightarrow> (\<exists>n. e = OSError n) \<or> (\<exists>rc. e = CalledProcessError rc (prettyCmd (unmount_cmd m)))"
    by blast
  note nd4 = run_made_not_direct [OF e4(4)]
  show ?thesis
  proof (cases ru)
    case (Inl e)
    with fin have "r = Inl e" "w' = w4" by simp_all
    with e4 nd4 Inl show ?thesis by (intro exI [of _ evs4]) auto
  next
    case (Inr u)
    with fin obtain rr w5 where rm: "os_remove_file E pid_file w4 = (rr, w5)"
      and fin2: "(case rr of
                        Inl e \<Rightarrow> r = Inl e \<and> w' = w5
                      | Inr _ \<Rightarrow>
                          (case res of
                             Inl e \<Rightarrow> r = Inl e \<and> w' = w5
                           | Inr v \<Rightarrow> (\<exists>pid. pidr = Inr pid \<and>
                                          waitpid E pid w5 = Some (Inr (), w') \<and> r = Inr v)))"
      by auto
    from os_remove_frame [OF rm] obtain x where
      e5: "trace w5 = trace w4 @ [Remove pid_file x]" "runName w5 = runName w4"
          "\<forall>e. rr = Inl e \<longrightarrow> (\<exists>n. e = OSError n)"
      by blast
    have nd5: "list_all (\<lambda>e. \<not> is_direct_spawn e) (evs4 @ [Remove pid_file x])"
      using nd4 by (simp add: is_direct_spawn_def)
    show ?thesis
    proof (cases rr)
      case (Inl e)
      with fin2 have "r = Inl e" "w' = w5" by simp_all
      with e4 e5 nd5 Inl show ?thesis
        by (intro exI [of _ "evs4 @ [Remove pid_file x]"]) auto
    next
      case rrInr: (Inr u2)
      show ?thesis
      proof (cases res)
        case (Inl e)
        with fin2 rrInr have "r = Inl e" "w' = w5" by simp_all
        with e4 e5 nd5 Inl show ?thesis
          by (intro exI [of _ "evs4 @ [Remove pid_file x]"]) auto
      next
        case (Inr v)
        with fin2 rrInr obtain pid where wp: "waitpid E pid w5 = Some (Inr (), w')" and rv: "r = Inr v"
          by auto
        from waitpid_frame [OF wp] obtain evsw where
          ew: "trace w' = trace w5 @ evsw" "runName w' = runName w5" "poll_shape pid evsw"
          by blast
        note pe = poll_shape_events [OF ew(3)]
        from e4 e5 ew nd5 rv Inr poll_events_popens [OF pe] poll_events_not_direct [OF pe]
        show ?thesis
          by (intro exI [of _ "evs4 @ [Remove pid_file x] @ evsw"]) auto
      qed
    qed
  qed
qed

lemma mountImg_frame:
  assumes ret: "mountImg E img m body w = Some (r, w')"
    and body: "\<And>w2 res w3. body m w2 = (res, w3) \<Longrightarrow>
                 \<exists>evs. trace w3 = trace w2 @ evs \<and> runName w3 = runName w2 \<and>
                       list_all run_made evs \<and> list_all is_shell_cmd (popens evs) \<and>
                       (\<forall>e. res = Inl e \<longrightarrow> Rb e) \<and> (\<forall>v. res = Inr v \<longrightarrow> Rv v)"
  shows "\<exists>evs. trace w' = trace w @ evs \<and> runName w' = runName w \<and>
           list_all (\<lambda>e. \<not> is_direct_spawn e) evs \<and>
           ((Wait (mount_cmd img m) 0 \<notin> set evs \<and> popens evs = [mount_cmd img m] \<and>
             (\<exists>e. r = Inl e \<and> ((\<exists>n. e = OSError n) \<or> (\<exists>rc c. e = CalledProcessError rc c)))) \<or>
            (Wait (mount_cmd img m) 0 \<in> set evs \<and>
             (\<exists>mid. popens evs = mount_cmd img m # mid @ [unmount_cmd m] \<and>
                    list_all is_shell_cmd mid) \<and>
             (\<forall>e. r = Inl e \<longrightarrow> (\<exists>n. e = OSError n) \<or> (\<exists>rc c. e = CalledProcessError rc c) \<or>
                                 (\<exists>s. e = ValueError (int_msg s)) \<or> Rb e) \<and>
             (\<forall>v. r = Inr v \<longrightarrow> Rv v)))"
proof -
  from mountImg_cases [OF ret] show ?thesis
  proof (elim disjE exE conjE)
    fix e
    assume rm: "run E (mount_cmd img m) logging_DEBUG True no_kwargs w = (Inl e, w')" and r: "r = Inl e"
    from run_frame [OF rm] obtain evs where
      e1: "trace w' = trace w @ evs" "runName w' = runName w" "popens evs = [mount_cmd img m]"
          "list_all run_made evs" "Wait (mount_cmd img m) 0 \<in> set evs \<longrightarrow> (Inl e :: exn + unit) = Inr ()"
          "\<forall>e'. (Inl e :: exn + unit) = Inl e' \<longrightarrow> (\<exists>n. e' = OSError n) \<or>
                 (\<exists>rc. e' = CalledProcessError rc (prettyCmd (mount_cmd img m)))"
      by blast
    from e1(6) have "(\<exists>n. e = OSError n) \<or> (\<exists>rc c. e = CalledProcessError rc c)" by auto
    with e1 r run_made_not_direct [OF e1(4)] show ?thesis
      by (intro exI [of _ evs]) auto
  next
    fix w1 pidr w2 res w3 ru w4
    assume rm: "run E (mount_cmd img m) logging_DEBUG True no_kwargs w = (Inr (), w1)"
      and rp: "read_pid E w1 = (pidr, w2)"
      and tr: "(case pidr of Inl e \<Rightarrow> res = Inl e \<and> w3 = w2 | Inr _ \<Rightarrow> body m w2 = (res, w3))"
      and um: "run E (unmount_cmd m) logging_DEBUG True no_kwargs w3 = (ru, w4)"
      and fin: "(case ru of
                Inl e \<Rightarrow> r = Inl e \<and> w' = w4
              | Inr _ \<Rightarrow>
                  (\<exists>rr w5. os_remove_file E pid_file w4 = (rr, w5) \<and>
                     (case rr of
                        Inl e \<Rightarrow> r = Inl e \<and> w' = w5
                      | Inr _ \<Rightarrow>
                          (case res of
                             Inl e \<Rightarrow> r = Inl e \<and> w' = w5
                           | Inr v \<Rightarrow> (\<exists>pid. pidr = Inr pid \<and>
                                          waitpid E pid w5 = Some (Inr (), w') \<and> r = Inr v)))))"
    from run_frame [OF rm] obtain evs1 where
      e1: "trace w1 = trace w @ evs1" "runName w1 = runName w" "popens evs1 = [mount_cmd img m]"
          "list_all run_made evs1" "Wait (mount_cmd img m) 0 \<in> set evs1"
      by blast
    from read_pid_frame [OF rp] obtain x where
      e2: "trace w2 = trace w1 @ [ReadLine pid_file x]" "runName w2 = runName w1"
          "\<forall>e. pidr = Inl e \<longrightarrow> (\<exists>n. e = OSError n) \<or> (\<exists>s. e = ValueError (int_msg s))"
      by blast
    have "\<exists>evsb. trace w3 = trace w2 @ evsb \<and> runName w3 = runName w2 \<and>
                 list_all run_made evsb \<and> list_all is_shell_cmd (popens evsb) \<and>
                 (\<forall>e. res = Inl e \<longrightarrow> (\<exists>n. e = OSError n) \<or> (\<exists>s. e = ValueError (int_msg s)) \<or> Rb e) \<and>
                 (\<forall>v. res = Inr v \<longrightarrow> Rv v)"
    proof (cases pidr)
      case (Inl e)
      with tr e2(3) show ?thesis by (intro exI [of _ "[]"]) auto
    next
      case (Inr pid)
      with tr have "body m w2 = (res, w3)" by simp
      from body [OF this] show ?thesis by blast
    qed
    then obtain evsb where
      eb: "trace w3 = trace w2 @ evsb" "runName w3 = runName w2"
          "list_all run_made evsb" "list_all is_shell_cmd (popens evsb)"
          "\<forall>e. res = Inl e \<longrightarrow> (\<exists>n. e = OSError n) \<or> (\<exists>s. e = ValueError (int_msg s)) \<or> Rb e"
          "\<forall>v. res = Inr v \<longrightarrow> Rv v"
      by blast
    from cleanup_frame [OF um fin] obtain post where
      ep: "trace w' = trace w3 @ post" "runName w' = runName w3"
          "popens post = [unmount_cmd m]" "list_all (\<lambda>e. \<not> is_direct_spawn e) post"
          "\<forall>e. r = Inl e \<longrightarrow> (\<exists>n. e = OSError n) \<or> (\<exists>rc c. e = CalledProcessError rc c) \<or> res = Inl e"
          "\<forall>v. r = Inr v \<longrightarrow> res = Inr v"
      by blast
    let ?evs = "evs1 @ [ReadLine pid_file x] @ evsb @ post"
    have t: "trace w' = trace w @ ?evs" using e1(1) e2(1) eb(1) ep(1) by simp
    have n: "runName w' = runName w" using e1(2) e2(2) eb(2) ep(2) by simp
    have d: "list_all (\<lambda>e. \<not> is_direct_spawn e) ?evs"
      using run_made_not_direct [OF e1(4)] run_made_not_direct [OF eb(3)] ep(4)
      by (simp add: is_direct_spawn_def)
    have m: "Wait (mount_cmd img m) 0 \<in> set ?evs" using e1(5) by simp
    have p: "popens ?evs = mount_cmd img m # popens evsb @ [unmount_cmd m]"
      using e1(3) ep(3) by simp
    have er: "\<forall>e. r = Inl e \<longrightarrow> (\<exists>n. e = OSError n) \<or> (\<exists>rc c. e = CalledProcessError rc c) \<or>
                                 (\<exists>s. e = ValueError (int_msg s)) \<or> Rb e"
      using ep(5) eb(5) by blast
    have rv: "\<forall>v. r = Inr v \<longrightarrow> Rv v" using ep(6) eb(6) by blast
    show ?thesis
      apply (rule exI [of _ ?evs])
      apply (intro conjI t n d disjI2 m er rv)
      apply (rule exI [of _ "popens evsb"])
      using p eb(4) by simp
  qed
qed

lemma copy_loop_frame:
  "copy_loop E fs d w = (r, w') \<Longrightarrow>
   \<exists>evs. trace w' = trace w @ evs \<and> runName w' = runName w \<and>
         list_all run_made evs \<and> list_all is_shell_cmd (popens evs) \<and>
         (\<forall>e. r = Inl e \<longrightarrow> (\<exists>n. e = OSError n) \<or> (\<exists>rc c. e = CalledProcessError rc c) \<or>
                             (fs \<noteq> [] \<and> d \<noteq> ''in'' \<and> d \<noteq> ''out'' \<and> e = ValueError direction_msg)) \<and>
         (\<forall>v. r = Inr v \<longrightarrow> fs = [] \<or> d = ''in'' \<or> d = ''out'')"
proof (induction fs arbitrary: w)
  case Nil
  then show ?case by (intro exI [of _ "[]"]) auto
next
  case (Cons f fs)
  let ?c = "if d = ''in'' then CmdStr (''cp -a '' @ src f @ '' '' @ normpath (mnt E @ dst f))
            else CmdStr (''cp -a '' @ normpath (mnt E @ src f) @ '' '' @ dst f)"
  show ?case
  proof (cases "d = ''in'' \<or> d = ''out''")
    case False
    with Cons.prems show ?thesis by (intro exI [of _ "[]"]) auto
  next
    case True
    obtain r1 w1 where r1: "run E ?c logging_DEBUG True shell_kwargs w = (r1, w1)"
      by (cases "run E ?c logging_DEBUG True shell_kwargs w")
    from run_frame [OF r1] obtain evs1 where
      e1: "trace w1 = trace w @ evs1" "runName w1 = runName w" "popens evs1 = [?c]"
          "list_all run_made evs1"
          "\<forall>e. r1 = Inl e \<longrightarrow> (\<exists>n. e = OSError n) \<or> (\<exists>rc. e = CalledProcessError rc (prettyCmd ?c))"
      by blast
    have sh: "is_shell_cmd ?c" by (simp add: is_shell_cmd_def)
    show ?thesis
    proof (cases r1)
      case (Inl e)
      with Cons.prems True r1 have "r = Inl e" "w' = w1" by (auto split: if_splits)
      with e1 Inl sh show ?thesis by (intro exI [of _ evs1]) auto
    next
      case (Inr u)
      with Cons.prems True r1 have "copy_loop E fs d w1 = (r, w')" by (auto split: if_splits)
      from Cons.IH [OF this] obtain evs2 where
        e2: "trace w' = trace w1 @ evs2" "runName w' = runName w1"
            "list_all run_made evs2" "list_all is_shell_cmd (popens evs2)"
            "\<forall>e. r = Inl e \<longrightarrow> (\<exists>n. e = OSError n) \<or> (\<exists>rc c. e = CalledProcessError rc c) \<or>
                             (fs \<noteq> [] \<and> d \<noteq> ''in'' \<and> d \<noteq> ''out'' \<and> e = ValueError direction_msg)"
        by blast
      from e1 e2 sh True show ?thesis by (intro exI [of _ "evs1 @ evs2"]) auto
    qed
  qed
qed

lemma int_msg_not_direction [simp]: "int_msg s \<noteq> direction_msg" "direction_msg \<noteq> int_msg s"
  by (simp_all add: int_msg_def direction_msg_def)

lemma copyImgFiles_frame [consumes 1, case_names unmounted mounted]:
  assumes ret: "copyImgFiles E img files d w = Some (r, w')"
  obtains (unmounted) evs pre e where
      "trace w' = trace w @ evs" "runName w' = runName w"
      "list_all (\<lambda>e. \<not> is_direct_spawn e) evs"
      "pre = [] \<or> pre = [CmdArgv [''mkdir'', mnt E]]"
      "Wait (mount_cmd img (mnt E)) 0 \<notin> set evs"
      "popens evs = pre \<or> popens evs = pre @ [mount_cmd img (mnt E)]"
      "r = Inl e" "(\<exists>n. e = OSError n) \<or> (\<exists>rc c. e = CalledProcessError rc c)"
  | (mounted) evs pre mid where
      "trace w' = trace w @ evs" "runName w' = runName w"
      "list_all (\<lambda>e. \<not> is_direct_spawn e) evs"
      "pre = [] \<or> pre = [CmdArgv [''mkdir'', mnt E]]"
      "Wait (mount_cmd img (mnt E)) 0 \<in> set evs"
      "popens evs = pre @ mount_cmd img (mnt E) # mid @ [unmount_cmd (mnt E)]"
      "list_all is_shell_cmd mid"
      "\<forall>e. r = Inl e \<longrightarrow> (\<exists>n. e = OSError n) \<or> (\<exists>rc c. e = CalledProcessError rc c) \<or>
             (\<exists>s. e = ValueError (int_msg s)) \<or>
             (files \<noteq> [] \<and> d \<noteq> ''in'' \<and> d \<noteq> ''out'' \<and> e = ValueError direction_msg)"
      "\<forall>v. r = Inr v \<longrightarrow> files = [] \<or> d = ''in'' \<or> d = ''out''"
proof -
  let ?Rv = "\<lambda>v::unit. files = [] \<or> d = ''in'' \<or> d = ''out''"
  let ?ex = "path_exists E (trace w) (mnt E)"
  let ?w0 = "emit (Exists (mnt E) ?ex) w"
  let ?mk = "CmdArgv [''mkdir'', mnt E]"
  let ?Rb = "\<lambda>e. (\<exists>n. e = OSError n) \<or> (\<exists>rc c. e = CalledProcessError rc c) \<or>
                 (files \<noteq> [] \<and> d \<noteq> ''in'' \<and> d \<noteq> ''out'' \<and> e = ValueError direction_msg)"
  obtain r1 w1 where s1: "(if \<not> ?ex then run E ?mk logging_DEBUG True no_kwargs ?w0
               else (Inr (), ?w0)) = (r1, w1)"
    by (cases "(if \<not> ?ex then run E ?mk logging_DEBUG True no_kwargs ?w0 else (Inr (), ?w0))")
  have "\<exists>evs1 pre. trace w1 = trace w @ evs1 \<and> runName w1 = runName w \<and>
          list_all (\<lambda>e. \<not> is_direct_spawn e) evs1 \<and> (pre = [] \<or> pre = [?mk]) \<and> popens evs1 = pre \<and>
          Wait (mount_cmd img (mnt E)) 0 \<notin> set evs1 \<and>
          (\<forall>e. r1 = Inl e \<longrightarrow> (\<exists>n. e = OSError n) \<or> (\<exists>rc c. e = CalledProcessError rc c))"
  proof (cases ?ex)
    case True
    with s1 have "r1 = Inr ()" "w1 = ?w0" by simp_all
    then show ?thesis
      by (intro exI [of _ "[Exists (mnt E) ?ex]"] exI [of _ "[]"]) (simp add: is_direct_spawn_def)
  next
    case False
    with s1 have "run E ?mk logging_DEBUG True no_kwargs ?w0 = (r1, w1)" by simp
    from run_frame [OF this] obtain evs where
      e: "trace w1 = trace ?w0 @ evs" "runName w1 = runName ?w0" "popens evs = [?mk]"
         "list_all run_made evs" "\<forall>c rc. Wait c rc \<in> set evs \<longrightarrow> c = ?mk"
         "\<forall>e. r1 = Inl e \<longrightarrow> (\<exists>n. e = OSError n) \<or> (\<exists>rc. e = CalledProcessError rc (prettyCmd ?mk))"
      by blast
    from e(5) have nw: "Wait (mount_cmd img (mnt E)) 0 \<notin> set evs"
      by (auto simp: mount_cmd_def)
    from e run_made_not_direct [OF e(4)] nw show ?thesis
      by (intro exI [of _ "Exists (mnt E) ?ex # evs"] exI [of _ "[?mk]"])
         (auto simp: is_direct_spawn_def)
  qed
  then obtain evs1 pre where
    e1: "trace w1 = trace w @ evs1" "runName w1 = runName w"
        "list_all (\<lambda>e. \<not> is_direct_spawn e) evs1" "pre = [] \<or> pre = [?mk]" "popens evs1 = pre"
        "Wait (mount_cmd img (mnt E)) 0 \<notin> set evs1"
        "\<forall>e. r1 = Inl e \<longrightarrow> (\<exists>n. e = OSError n) \<or> (\<exists>rc c. e = CalledProcessError rc c)"
    by blast
  show thesis
  proof (cases r1)
    case (Inl e)
    with ret s1 have "r = Inl e" "w' = w1" by (simp_all add: copyImgFiles_def Let_def)
    with e1 Inl show thesis
      by (intro unmounted [of evs1 pre e]) simp_all
  next
    case (Inr u)
    with ret s1 have mi: "mountImg E img (mnt E) (\<lambda>m. copy_loop E files d) w1 = Some (r, w')"
      by (simp add: copyImgFiles_def Let_def)
    have "\<exists>evs. trace w' = trace w1 @ evs \<and> runName w' = runName w1 \<and>
           list_all (\<lambda>e. \<not> is_direct_spawn e) evs \<and>
           ((Wait (mount_cmd img (mnt E)) 0 \<notin> set evs \<and> popens evs = [mount_cmd img (mnt E)] \<and>
             (\<exists>e. r = Inl e \<and> ((\<exists>n. e = OSError n) \<or> (\<exists>rc c. e = CalledProcessError rc c)))) \<or>
            (Wait (mount_cmd img (mnt E)) 0 \<in> set evs \<and>
             (\<exists>mid. popens evs = mount_cmd img (mnt E) # mid @ [unmount_cmd (mnt E)] \<and>
                    list_all is_shell_cmd mid) \<and>
             (\<forall>e. r = Inl e \<longrightarrow> (\<exists>n. e = OSError n) \<or> (\<exists>rc c. e = CalledProcessError rc c) \<or>
                                 (\<exists>s. e = ValueError (int_msg s)) \<or> ?Rb e) \<and>
             (\<forall>v. r = Inr v \<longrightarrow> ?Rv v)))"
    proof (rule mountImg_frame [OF mi])
      fix w2 res w3
      assume "copy_loop E files d w2 = (res, w3)"
      from copy_loop_frame [OF this]
      show "\<exists>evs. trace w3 = trace w2 @ evs \<and> runName w3 = runName w2 \<and>
                       list_all run_made evs \<and> list_all is_shell_cmd (popens evs) \<and>
                       (\<forall>e. res = Inl e \<longrightarrow> ?Rb e) \<and> (\<forall>v. res = Inr v \<longrightarrow> ?Rv v)"
        by blast
    qed
    then obtain evs2 where
      e2: "trace w' = trace w1 @ evs2 \<and> runName w' = runName w1 \<and>
           list_all (\<lambda>e. \<not> is_direct_spawn e) evs2 \<and>
           ((Wait (mount_cmd img (mnt E)) 0 \<notin> set evs2 \<and> popens evs2 = [mount_cmd img (mnt E)] \<and>
             (\<exists>e. r = Inl e \<and> ((\<exists>n. e = OSError n) \<or> (\<exists>rc c. e = CalledProcessError rc c)))) \<or>
            (Wait (mount_cmd img (mnt E)) 0 \<in> set evs2 \<and>
             (\<exists>mid. popens evs2 = mount_cmd img (mnt E) # mid @ [unmount_cmd (mnt E)] \<and>
                    list_all is_shell_cmd mid) \<and>
             (\<forall>e. r = Inl e \<longrightarrow> (\<exists>n. e = OSError n) \<or> (\<exists>rc c. e = CalledProcessError rc c) \<or>
                                 (\<exists>s. e = ValueError (int_msg s)) \<or> ?Rb e) \<and>
             (\<forall>v. r = Inr v \<longrightarrow> ?Rv v)))" ..
    have t: "trace w' = trace w @ (evs1 @ evs2)" using e1(1) e2 by simp
    have n: "runName w' = runName w" using e1(2) e2 by simp
    have dd: "list_all (\<lambda>e. \<not> is_direct_spawn e) (evs1 @ evs2)" using e1(3) e2 by simp
    from e2 [THEN conjunct2, THEN conjunct2, THEN conjunct2] show thesis
    proof (rule disjE)
      assume A: "Wait (mount_cmd img (mnt E)) 0 \<notin> set evs2 \<and> popens evs2 = [mount_cmd img (mnt E)] \<and>
             (\<exists>e. r = Inl e \<and> ((\<exists>n. e = OSError n) \<or> (\<exists>rc c. e = CalledProcessError rc c)))"
      then obtain e where e: "r = Inl e \<and> ((\<exists>n. e = OSError n) \<or> (\<exists>rc c. e = CalledProcessError rc c))"
        by (elim conjE exE) (rule that, simp)
      show thesis
        by (rule unmounted [of "evs1 @ evs2" pre e]) (use A e e1(4,5,6) t n dd in simp_all)
    next
      assume A: "Wait (mount_cmd img (mnt E)) 0 \<in> set evs2 \<and>
             (\<exists>mid. popens evs2 = mount_cmd img (mnt E) # mid @ [unmount_cmd (mnt E)] \<and>
                    list_all is_shell_cmd mid) \<and>
             (\<forall>e. r = Inl e \<longrightarrow> (\<exists>n. e = OSError n) \<or> (\<exists>rc c. e = CalledProcessError rc c) \<or>
                                 (\<exists>s. e = ValueError (int_msg s)) \<or> ?Rb e) \<and>
             (\<forall>v. r = Inr v \<longrightarrow> ?Rv v)"
      then obtain mid where mid: "popens evs2 = mount_cmd img (mnt E) # mid @ [unmount_cmd (mnt E)] \<and>
                    list_all is_shell_cmd mid"
        by (elim conjE exE) (rule that, simp)
      from A have a4: "\<forall>e. r = Inl e \<longrightarrow> (\<exists>n. e = OSError n) \<or> (\<exists>rc c. e = CalledProcessError rc c) \<or>
             (\<exists>s. e = ValueError (int_msg s)) \<or>
             (files \<noteq> [] \<and> d \<noteq> ''in'' \<and> d \<noteq> ''out'' \<and> e = ValueError direction_msg)"
        by blast
      from A have a5: "\<forall>v. r = Inr v \<longrightarrow> files = [] \<or> d = ''in'' \<or> d = ''out''" by simp
      show thesis
        by (rule mounted [of "evs1 @ evs2" pre mid]) (use A mid a4 a5 e1(4,5,6) t n dd in simp_all)
    qed
  qed
qed

lemma shell_not_mount: "is_shell_cmd c \<Longrightarrow> \<not> is_mount c \<and> \<not> is_unmount c"
  by (cases c) (simp_all add: is_shell_cmd_def is_mount_def is_unmount_def)

lemma filter_shell_cmds:
  "list_all is_shell_cmd cs \<Longrightarrow>
   filter is_mount cs = [] \<and> filter is_unmount cs = [] \<and>
   filter (\<lambda>c. is_mount c \<or> is_unmount c) cs = []"
  by (induction cs) (auto dest: shell_not_mount)

lemma mount_cmd_tests [simp]:
  "is_mount (mount_cmd img m)" "\<not> is_unmount (mount_cmd img m)"
  "is_unmount (unmount_cmd m)" "\<not> is_mount (unmount_cmd m)"
  "\<not> is_mount (CmdArgv [''mkdir'', m])" "\<not> is_unmount (CmdArgv [''mkdir'', m])"
  by (simp_all add: is_mount_def is_unmount_def mount_cmd_def unmount_cmd_def)

section \<open>The calm machine\<close>

text \<open>On the machine where everything works, each step has one outcome.\<close>

lemma calm_run:
  "run calm_env a lv chk kw w =
     (Inr (), w\<lparr>trace := trace w @ [LogMsg lv (running_msg calm_env a kw (trace w)), Popen a kw,
                                      Wait a 0]\<rparr>)"
  by (cases "cwd kw") (simp_all add: run_def calm_env_def running_msg_def emit_def log_log_def)

lemma pid_line: "py_int (''4242'' @ [CHR 0x0A]) = Inr 4242"
  by (simp add: py_int_def str_strip_def py_isspace_def py_unsigned_def is_digit_def digit_val_def)

lemma calm_read_pid:
  "read_pid calm_env w =
     (Inr 4242, w\<lparr>trace := trace w @ [ReadLine pid_file (Inr (''4242'' @ [CHR 0x0A]))]\<rparr>)"
  using pid_line by (simp add: read_pid_def calm_env_def emit_def)

lemma calm_remove:
  "os_remove_file calm_env p w = (Inr (), w\<lparr>trace := trace w @ [Remove p None]\<rparr>)"
  by (simp add: os_remove_file_def calm_env_def emit_def)

lemma calm_waitpid:
  "waitpid calm_env pid w = Some (Inr (), w\<lparr>trace := trace w @ [Kill pid (Some ESRCH)]\<rparr>)"
  by (subst waitpid.simps) (simp add: calm_env_def emit_def)

lemma calm_exists: "path_exists calm_env t p = True"
  by (simp add: calm_env_def)

lemma calm_getcwd: "os_getcwd calm_env t = ''/work''"
  by (simp add: calm_env_def)

lemmas calm_simps = calm_run calm_read_pid calm_remove calm_waitpid calm_exists

section \<open>The mount scope\<close>

text \<open>
  Claim C1, which the code does not meet. The claim: on every exit of the mount scope,
  also when the body raises, the unmount runs, the PID file is removed and \<^verbatim>\<open>waitpid\<close>
  is called on the mount PID before the exception goes on. The code: \<^verbatim>\<open>waitpid\<close>
  stands after the \<^verbatim>\<open>try ... finally\<close> statement, so a pending exception leaves the
  generator before reaching it. On the calm machine a body that raises sees the unmount and
  the removal of the PID file and no probe of the PID at all, and its exception propagates;
  the same scope with a body that returns ends with the probe of PID 4242.
\<close>

theorem mountImg_raising_body_skips_waitpid:
  "mountImg calm_env ''a.img'' ''/mnt/x'' (\<lambda>m w. (Inl (KeyError ''boom'') :: exn + unit, w)) w0 =
     Some (Inl (KeyError ''boom''),
           \<lparr>trace =
              [LogMsg logging_DEBUG (running_msg calm_env (mount_cmd ''a.img'' ''/mnt/x'') no_kwargs []),
               Popen (mount_cmd ''a.img'' ''/mnt/x'') no_kwargs,
               Wait (mount_cmd ''a.img'' ''/mnt/x'') 0,
               ReadLine pid_file (Inr (''4242'' @ [CHR 0x0A])),
               LogMsg logging_DEBUG (running_msg calm_env (unmount_cmd ''/mnt/x'') no_kwargs []),
               Popen (unmount_cmd ''/mnt/x'') no_kwargs,
               Wait (unmount_cmd ''/mnt/x'') 0,
               Remove pid_file None],
            runName = []\<rparr>) \<and>
   mountImg calm_env ''a.img'' ''/mnt/x'' (\<lambda>m w. (Inr () :: exn + unit, w)) w0 =
     Some (Inr (),
           \<lparr>trace =
              [LogMsg logging_DEBUG (running_msg calm_env (mount_cmd ''a.img'' ''/mnt/x'') no_kwargs []),
               Popen (mount_cmd ''a.img'' ''/mnt/x'') no_kwargs,
               Wait (mount_cmd ''a.img'' ''/mnt/x'') 0,
               ReadLine pid_file (Inr (''4242'' @ [CHR 0x0A])),
               LogMsg logging_DEBUG (running_msg calm_env (unmount_cmd ''/mnt/x'') no_kwargs []),
               Popen (unmount_cmd ''/mnt/x'') no_kwargs,
               Wait (unmount_cmd ''/mnt/x'') 0,
               Remove pid_file None,
               Kill 4242 (Some ESRCH)],
            runName = []\<rparr>)"
  by (simp add: mountImg_def calm_simps calm_getcwd w0_def running_msg_def no_kwargs_def)

section \<open>File transfer\<close>



text \<open>
  Claim C9. The direction is looked at only inside the loop over the file specs. With an
  empty list no call raises the direction error, whatever the direction. With a non-empty
  list and a direction that is neither \<^verbatim>\<open>'in'\<close> nor \<^verbatim>\<open>'out'\<close> the call never returns
  normally, and whenever it raises the direction error the image has been mounted in full
  (the mount command exited with 0) and unmounted again.
\<close>

theorem copyImgFiles_direction_checked_in_loop:
  "(copyImgFiles E img [] direction w = Some (r, w') \<longrightarrow> r \<noteq> Inl (ValueError direction_msg)) \<and>
   (files \<noteq> [] \<and> direction \<noteq> ''in'' \<and> direction \<noteq> ''out'' \<and>
    copyImgFiles E img files direction w = Some (r, w') \<longrightarrow>
      r \<noteq> Inr () \<and>
      (r = Inl (ValueError direction_msg) \<longrightarrow>
         Wait (mount_cmd img (mnt E)) 0 \<in> set (new_events w w') \<and>
         filter (\<lambda>c. is_mount c \<or> is_unmount c) (popens (new_events w w')) =
           [mount_cmd img (mnt E), unmount_cmd (mnt E)]))"
proof (intro conjI impI)
  assume a: "copyImgFiles E img [] direction w = Some (r, w')"
  then show "r \<noteq> Inl (ValueError direction_msg)"
    by (cases rule: copyImgFiles_frame) auto
next
  assume a: "files \<noteq> [] \<and> direction \<noteq> ''in'' \<and> direction \<noteq> ''out'' \<and>
    copyImgFiles E img files direction w = Some (r, w')"
  then have ret: "copyImgFiles E img files direction w = Some (r, w')" by simp
  from ret a show "r \<noteq> Inr ()"
    by (cases rule: copyImgFiles_frame) auto
next
  assume a: "files \<noteq> [] \<and> direction \<noteq> ''in'' \<and> direction \<noteq> ''out'' \<and>
    copyImgFiles E img files direction w = Some (r, w')"
    and r: "r = Inl (ValueError direction_msg)"
  then have ret: "copyImgFiles E img files direction w = Some (r, w')" by simp
  from ret have "Wait (mount_cmd img (mnt E)) 0 \<in> set (new_events w w') \<and>
         filter (\<lambda>c. is_mount c \<or> is_unmount c) (popens (new_events w w')) =
           [mount_cmd img (mnt E), unmount_cmd (mnt E)]"
  proof (cases rule: copyImgFiles_frame)
    case (unmounted evs pre e)
    with r show ?thesis by auto
  next
    case (mounted evs pre mid)
    from mounted(1) have ne: "new_events w w' = evs" by simp
    from mounted(4,6) filter_shell_cmds [OF mounted(7)]
    have "filter (\<lambda>c. is_mount c \<or> is_unmount c) (popens evs) =
              [mount_cmd img (mnt E), unmount_cmd (mnt E)]"
      by auto
    with mounted(5) ne show ?thesis by simp
  qed
  then show "Wait (mount_cmd img (mnt E)) 0 \<in> set (new_events w w')"
    and "filter (\<lambda>c. is_mount c \<or> is_unmount c) (popens (new_events w w')) =
           [mount_cmd img (mnt E), unmount_cmd (mnt E)]" by simp_all
qed

theorem copyImgFiles_direction_checked_in_loop_witness:
  "(case copyImgFiles calm_env ''a.img'' [] ''sideways'' w0 of
      Some (r, w') \<Rightarrow> r = Inr () \<and> r \<noteq> Inl (ValueError direction_msg)
    | None \<Rightarrow> False) \<and>
   three_files \<noteq> [] \<and> ''sideways'' \<noteq> ''in'' \<and> ''sideways'' \<noteq> ''out'' \<and>
   (case copyImgFiles calm_env ''a.img'' three_files ''sideways'' w0 of
      Some (r, w') \<Rightarrow>
        r = Inl (ValueError direction_msg) \<and> r \<noteq> Inr () \<and>
        Wait (mount_cmd ''a.img'' (mnt calm_env)) 0 \<in> set (new_events w0 w') \<and>
        filter (\<lambda>c. is_mount c \<or> is_unmount c) (popens (new_events w0 w')) =
          [mount_cmd ''a.img'' (mnt calm_env), unmount_cmd (mnt calm_env)]
    | None \<Rightarrow> False)"
proof -
  have "\<exists>w'. copyImgFiles calm_env ''a.img'' [] ''sideways'' w0 = Some (Inr (), w')"
    by (simp add: copyImgFiles_def mountImg_def calm_simps)
  then obtain w1 where r1: "copyImgFiles calm_env ''a.img'' [] ''sideways'' w0 = Some (Inr (), w1)" ..
  have "\<exists>w'. copyImgFiles calm_env ''a.img'' three_files ''sideways'' w0 =
          Some (Inl (ValueError direction_msg), w')"
    by (simp add: copyImgFiles_def mountImg_def calm_simps three_files_def)
  then obtain w2 where r2: "copyImgFiles calm_env ''a.img'' three_files ''sideways'' w0 =
          Some (Inl (ValueError direction_msg), w2)" ..
  have ne: "three_files \<noteq> []" "''sideways'' \<noteq> ''in''" "''sideways'' \<noteq> ''out''"
    by (simp_all add: three_files_def)
  from copyImgFiles_direction_checked_in_loop
         [of calm_env "''a.img''" "''sideways''" w0 "Inr ()" w1 three_files] r1
  have a: "(Inr () :: exn + unit) \<noteq> Inl (ValueError direction_msg)" by simp
  from copyImgFiles_direction_checked_in_loop
         [of calm_env "''a.img''" "''sideways''" w0 "Inl (ValueError direction_msg)" w2 three_files]
       r2 ne
  have b: "Wait (mount_cmd ''a.img'' (mnt calm_env)) 0 \<in> set (new_events w0 w2) \<and>
        filter (\<lambda>c. is_mount c \<or> is_unmount c) (popens (new_events w0 w2)) =
          [mount_cmd ''a.img'' (mnt calm_env), unmount_cmd (mnt calm_env)]"
    by simp
  from r1 r2 ne a b show ?thesis by simp
qed

section \<open>The one-time initializer\<close>

lemma run_log_level:
  assumes "run E a lv chk kw w = (r, w')" and "trace w' = trace w @ evs"
    and "LogMsg l m \<in> set evs"
  shows "l = lv"
proof (cases "sp_Popen E (trace w @ [LogMsg lv (running_msg E a kw (trace w))]) a kw")
  case (Inl errno)
  from run_spawn_fails(2) [OF Inl, of chk] assms show ?thesis by auto
next
  case (Inr res)
  obtain out rc where res: "res = (out, rc)" by (cases res)
  from run_spawned(2) [OF Inr [unfolded res], of chk] assms show ?thesis by auto
qed

lemma run_events:
  assumes "run E a lv chk kw w = (r, w')"
  shows "\<exists>evs. trace w' = trace w @ evs \<and> runName w' = runName w \<and> popens evs = [a] \<and>
               (\<forall>ev \<in> set evs. case ev of LogMsg l m \<Rightarrow> l = lv | Popen c k \<Rightarrow> c = a
                                  | Wait c rc \<Rightarrow> c = a | _ \<Rightarrow> False) \<and>
               (r = Inr () \<and> chk \<longrightarrow> Wait a 0 \<in> set evs)"
proof -
  from run_frame [OF assms] obtain evs where
    e: "trace w' = trace w @ evs" "runName w' = runName w" "popens evs = [a]"
       "list_all run_made evs" "\<forall>c rc. Wait c rc \<in> set evs \<longrightarrow> c = a"
       "r = Inr () \<and> chk \<longrightarrow> Wait a 0 \<in> set evs"
    by blast
  have "\<forall>ev \<in> set evs. case ev of LogMsg l m \<Rightarrow> l = lv | Popen c k \<Rightarrow> c = a
                                  | Wait c rc \<Rightarrow> c = a | _ \<Rightarrow> False"
  proof
    fix ev assume m: "ev \<in> set evs"
    with e(4) have rm: "run_made ev" by (simp add: list_all_iff)
    show "case ev of LogMsg l m \<Rightarrow> l = lv | Popen c k \<Rightarrow> c = a | Wait c rc \<Rightarrow> c = a | _ \<Rightarrow> False"
    proof (cases ev)
      case (LogMsg l msg)
      with m run_log_level [OF assms e(1)] show ?thesis by simp
    next
      case (Popen c k)
      with m have "c \<in> set (popens evs)" by (induction evs rule: popens.induct) auto
      with e(3) Popen show ?thesis by simp
    next
      case (Wait c rc)
      with m e(5) show ?thesis by auto
    qed (use rm in \<open>simp_all add: run_made_def\<close>)
  qed
  with e show ?thesis by blast
qed

lemma setup_event_simps [simp]:
  "setup_event E (Exists p b)" "setup_event E (Mkdir p r)" "setup_event E (CopyFile a c r)"
  "setup_event E (LogMsg logging_INFO m)" "setup_event E (LogMsg logging_DEBUG m)"
  by (simp_all add: setup_event_def)

lemma patch_event_simps [simp]:
  "patch_event (LogMsg logging_INFO m)" "patch_event (LogMsg logging_DEBUG m)"
  by (simp_all add: patch_event_def)

lemma make_dirs_frame:
  "make_dirs E ds w = (r, w') \<Longrightarrow>
   \<exists>evs. trace w' = trace w @ evs \<and> runName w' = runName w \<and> list_all (setup_event E) evs"
proof (induction ds arbitrary: w)
  case Nil
  then show ?case by (intro exI [of _ "[]"]) auto
next
  case (Cons d ds)
  let ?p = "pathlib_div (initramfs_root E) d"
  let ?ex = "path_exists E (trace w) ?p"
  let ?w1 = "emit (Exists ?p ?ex) w"
  let ?mk = "path_mkdir E (trace ?w1) ?p"
  let ?w2 = "emit (Mkdir ?p ?mk) ?w1"
  show ?case
  proof (cases ?ex)
    case True
    with Cons.prems have "make_dirs E ds ?w1 = (r, w')" by (simp add: Let_def)
    from Cons.IH [OF this] obtain evs where
      "trace w' = trace ?w1 @ evs \<and> runName w' = runName ?w1 \<and> list_all (setup_event E) evs" ..
    then show ?thesis
      by (intro exI [of _ "Exists ?p ?ex # evs"]) simp
  next
    case False
    show ?thesis
    proof (cases ?mk)
      case None
      with False Cons.prems have "make_dirs E ds ?w2 = (r, w')" by (simp add: Let_def)
      from Cons.IH [OF this] obtain evs where
        "trace w' = trace ?w2 @ evs \<and> runName w' = runName ?w2 \<and> list_all (setup_event E) evs" ..
      then show ?thesis
        by (intro exI [of _ "Exists ?p ?ex # Mkdir ?p ?mk # evs"]) simp
    next
      case (Some errno)
      with False Cons.prems have "w' = ?w2" by (simp add: Let_def)
      then show ?thesis
        by (intro exI [of _ "[Exists ?p ?ex, Mkdir ?p ?mk]"]) simp
    qed
  qed
qed

lemma shutil_copy_frame:
  "shutil_copy_file E a b w = (r, w') \<Longrightarrow>
   \<exists>x. trace w' = trace w @ [CopyFile a b x] \<and> runName w' = runName w"
  by (auto simp: shutil_copy_file_def Let_def split: option.splits)

lemma git_apply_is [simp]: "is_git_apply (git_apply_cmd p)"
  by (simp add: is_git_apply_def git_apply_cmd_def)

lemma make_not_git [simp]: "\<not> is_git_apply (CmdArgv [''make'', j])"
  by (simp add: is_git_apply_def)

lemma apply_patches_frame:
  "apply_patches E ps w = (r, w') \<Longrightarrow>
   \<exists>evs n. trace w' = trace w @ evs \<and> runName w' = runName w \<and> list_all patch_event evs \<and>
           n \<le> length ps \<and> popens evs = map git_apply_cmd (take n ps) \<and>
           (case r of
              Inr u \<Rightarrow> n = length ps \<and> (\<forall>p \<in> set ps. Wait (git_apply_cmd p) 0 \<in> set evs)
            | Inl e \<Rightarrow> 0 < n \<and> (\<forall>p \<in> set (take (n - 1) ps). Wait (git_apply_cmd p) 0 \<in> set evs))"
proof (induction ps arbitrary: w)
  case Nil
  then show ?case by (intro exI [of _ "[]"] exI [of _ 0]) auto
next
  case (Cons p ps)
  let ?w0 = "log_log logging_INFO (''Applying: '' @ p) w"
  let ?kw = "\<lparr>cwd = Some (linux_dir E), shell = False\<rparr>"
  obtain r1 w1 where r1: "run E (git_apply_cmd p) logging_DEBUG True ?kw ?w0 = (r1, w1)"
    by (cases "run E (git_apply_cmd p) logging_DEBUG True ?kw ?w0")
  from run_events [OF r1] obtain evs1 where
    e1: "trace w1 = trace ?w0 @ evs1" "runName w1 = runName ?w0" "popens evs1 = [git_apply_cmd p]"
        "\<forall>ev \<in> set evs1. case ev of LogMsg l m \<Rightarrow> l = logging_DEBUG | Popen c k \<Rightarrow> c = git_apply_cmd p
                                  | Wait c rc \<Rightarrow> c = git_apply_cmd p | _ \<Rightarrow> False"
        "r1 = Inr () \<and> True \<longrightarrow> Wait (git_apply_cmd p) 0 \<in> set evs1"
    by blast
  have pe1: "list_all patch_event evs1"
    unfolding list_all_iff
  proof
    fix ev assume "ev \<in> set evs1"
    with e1(4) have "case ev of LogMsg l m \<Rightarrow> l = logging_DEBUG | Popen c k \<Rightarrow> c = git_apply_cmd p
                                  | Wait c rc \<Rightarrow> c = git_apply_cmd p | _ \<Rightarrow> False" by blast
    then show "patch_event ev" by (cases ev) (simp_all add: patch_event_def)
  qed
  let ?pre = "LogMsg logging_INFO (''Applying: '' @ p) # evs1"
  have t1: "trace w1 = trace w @ ?pre" using e1(1) by simp
  have pp: "list_all patch_event ?pre" using pe1 by simp
  show ?case
  proof (cases r1)
    case (Inl e)
    with Cons.prems r1 have "r = Inl e" "w' = w1" by simp_all
    with t1 pp e1 show ?thesis
      by (intro exI [of _ ?pre] exI [of _ 1]) simp
  next
    case (Inr u)
    with Cons.prems r1 have "apply_patches E ps w1 = (r, w')" by simp
    from Cons.IH [OF this] obtain evs2 n where
      e2: "trace w' = trace w1 @ evs2 \<and> runName w' = runName w1 \<and> list_all patch_event evs2 \<and>
           n \<le> length ps \<and> popens evs2 = map git_apply_cmd (take n ps) \<and>
           (case r of
              Inr u \<Rightarrow> n = length ps \<and> (\<forall>p \<in> set ps. Wait (git_apply_cmd p) 0 \<in> set evs2)
            | Inl e \<Rightarrow> 0 < n \<and> (\<forall>p \<in> set (take (n - 1) ps). Wait (git_apply_cmd p) 0 \<in> set evs2))"
      by blast
    from Inr e1(5) have w0: "Wait (git_apply_cmd p) 0 \<in> set evs1" by simp
    have "(case r of
              Inr u \<Rightarrow> Suc n = length (p # ps) \<and>
                       (\<forall>q \<in> set (p # ps). Wait (git_apply_cmd q) 0 \<in> set (?pre @ evs2))
            | Inl e \<Rightarrow> 0 < Suc n \<and>
                       (\<forall>q \<in> set (take (Suc n - 1) (p # ps)). Wait (git_apply_cmd q) 0 \<in> set (?pre @ evs2)))"
    proof (cases r)
      case (Inl e)
      with e2 have "0 < n" "\<forall>q \<in> set (take (n - 1) ps). Wait (git_apply_cmd q) 0 \<in> set evs2"
        by simp_all
      then obtain k where k: "n = Suc k" by (cases n) auto
      with \<open>\<forall>q \<in> set (take (n - 1) ps). Wait (git_apply_cmd q) 0 \<in> set evs2\<close> w0 Inl
      show ?thesis by auto
    next
      case (Inr u2)
      with e2 w0 show ?thesis by auto
    qed
    with e2 t1 pp e1(2,3) show ?thesis
      by (intro exI [of _ "?pre @ evs2"] exI [of _ "Suc n"]) simp
  qed
qed

lemma apply_linux_patches_cases [consumes 1, case_names repo_error dirty_error dirty clean]:
  assumes ret: "apply_linux_patches E w = (r, w')"
  obtains (repo_error) patches err where
      "trace w' = trace w @ [Glob (board_dir E) ''*.patch'' patches, RepoOpen (linux_dir E) (Some err)]"
      "r = Inl (GitError err)"
  | (dirty_error) patches err where
      "trace w' = trace w @ [Glob (board_dir E) ''*.patch'' patches, RepoOpen (linux_dir E) None,
                            IsDirty (linux_dir E) (Inl err)]"
      "r = Inl (GitError err)"
  | (dirty) patches where
      "trace w' = trace w @ [Glob (board_dir E) ''*.patch'' patches, RepoOpen (linux_dir E) None,
                            IsDirty (linux_dir E) (Inr True), LogMsg logging_WARNING dirty_msg,
                            LogList logging_WARNING patches]"
      "r = Inr ()"
  | (clean) patches pevs n tl where
      "trace w' = trace w @ [Glob (board_dir E) ''*.patch'' patches, RepoOpen (linux_dir E) None,
                            IsDirty (linux_dir E) (Inr False), LogMsg logging_INFO patches_msg] @
                            pevs @ tl"
      "r = Inr ()" "list_all patch_event pevs" "n \<le> length patches"
      "popens pevs = map git_apply_cmd (take n patches)"
      "(tl = [] \<and> n = length patches \<and> (\<forall>p \<in> set patches. Wait (git_apply_cmd p) 0 \<in> set pevs)) \<or>
       (tl = [LogMsg logging_ERROR failed_msg] \<and> 0 < n \<and>
        (\<forall>p \<in> set (take (n - 1) patches). Wait (git_apply_cmd p) 0 \<in> set pevs))"
proof -
  let ?patches = "path_glob E (trace w) (board_dir E) ''*.patch''"
  let ?w1 = "emit (Glob (board_dir E) ''*.patch'' ?patches) w"
  let ?opened = "git_Repo E (trace ?w1) (linux_dir E)"
  let ?w2 = "emit (RepoOpen (linux_dir E) ?opened) ?w1"
  let ?dirty = "is_dirty E (trace ?w2) (linux_dir E)"
  let ?w3 = "emit (IsDirty (linux_dir E) ?dirty) ?w2"
  show thesis
  proof (cases ?opened)
    case (Some err)
    with ret have "r = Inl (GitError err)" "w' = ?w2"
      by (simp_all add: apply_linux_patches_def Let_def)
    with Some show thesis by (intro repo_error [of ?patches err]) simp_all
  next
    case None
    show thesis
    proof (cases ?dirty)
      case (Inl err)
      with None ret have "r = Inl (GitError err)" "w' = ?w3"
        by (simp_all add: apply_linux_patches_def Let_def)
      with None Inl show thesis by (intro dirty_error [of ?patches err]) simp_all
    next
      case (Inr b)
      show thesis
      proof (cases b)
        case True
        with None Inr ret have "r = Inr ()"
          "w' = emit (LogList logging_WARNING ?patches) (log_log logging_WARNING dirty_msg ?w3)"
          by (simp_all add: apply_linux_patches_def Let_def)
        with None Inr True show thesis by (intro dirty [of ?patches]) simp_all
      next
        case False
        let ?w4 = "log_log logging_INFO patches_msg ?w3"
        obtain rp wp where ap: "apply_patches E ?patches ?w4 = (rp, wp)"
          by (cases "apply_patches E ?patches ?w4")
        from apply_patches_frame [OF ap] obtain pevs n where
          pf: "trace wp = trace ?w4 @ pevs \<and> runName wp = runName ?w4 \<and> list_all patch_event pevs \<and>
           n \<le> length ?patches \<and> popens pevs = map git_apply_cmd (take n ?patches) \<and>
           (case rp of
              Inr u \<Rightarrow> n = length ?patches \<and> (\<forall>p \<in> set ?patches. Wait (git_apply_cmd p) 0 \<in> set pevs)
            | Inl e \<Rightarrow> 0 < n \<and> (\<forall>p \<in> set (take (n - 1) ?patches). Wait (git_apply_cmd p) 0 \<in> set pevs))"
          by blast
        show thesis
        proof (cases rp)
          case (Inl e)
          with None Inr False ret ap have "r = Inr ()" "w' = log_log logging_ERROR failed_msg wp"
            by (simp_all add: apply_linux_patches_def Let_def patches_msg_def)
          with None Inr False Inl pf show thesis
            by (intro clean [of ?patches pevs "[LogMsg logging_ERROR failed_msg]" n]) simp_all
        next
          case rpInr: (Inr u)
          with None Inr False ret ap have "r = Inr ()" "w' = wp"
            by (simp_all add: apply_linux_patches_def Let_def patches_msg_def)
          with None Inr False rpInr pf show thesis
            by (intro clean [of ?patches pevs "[]" n]) simp_all
        qed
      qed
    qed
  qed
qed

lemma oneTimeInit_cases [consumes 1, case_names setup_failed patching]:
  assumes ret: "oneTimeInit E w = (r, w')"
  obtains (setup_failed) evs e where
      "trace w' = trace w @ evs" "list_all (setup_event E) evs" "r = Inl e"
  | (patching) evs w4 where
      "trace w4 = trace w @ evs" "list_all (setup_event E) evs"
      "apply_linux_patches E w4 = (r, w')"
proof -
  let ?mk = "CmdArgv [''make'', jlevel E]"
  obtain r1 w1 where s1: "make_dirs E initramfs_dirs w = (r1, w1)"
    by (cases "make_dirs E initramfs_dirs w")
  from make_dirs_frame [OF s1] obtain evs1 where
    e1: "trace w1 = trace w @ evs1" "list_all (setup_event E) evs1" by blast
  show thesis
  proof (cases r1)
    case (Inl e)
    with ret s1 have "r = Inl e" "w' = w1" by (simp_all add: oneTimeInit_def)
    with e1 show thesis by (intro setup_failed [of evs1 e]) simp_all
  next
    case r1ok: (Inr u1)
    let ?w1' = "log_log logging_INFO ''Building busybox (used in initramfs)'' w1"
    obtain r2 w2 where s2: "shutil_copy_file E (pathlib_div (wlutil_dir E) ''busybox-config'')
                  (pathlib_div (busybox_dir E) ''.config'') ?w1' = (r2, w2)"
      by (cases "shutil_copy_file E (pathlib_div (wlutil_dir E) ''busybox-config'')
                  (pathlib_div (busybox_dir E) ''.config'') ?w1'")
    from shutil_copy_frame [OF s2] obtain x2 where
      e2: "trace w2 = trace ?w1' @ [CopyFile (pathlib_div (wlutil_dir E) ''busybox-config'')
                  (pathlib_div (busybox_dir E) ''.config'') x2]" by blast
    let ?evs2 = "evs1 @ [LogMsg logging_INFO ''Building busybox (used in initramfs)'',
                  CopyFile (pathlib_div (wlutil_dir E) ''busybox-config'')
                  (pathlib_div (busybox_dir E) ''.config'') x2]"
    have t2: "trace w2 = trace w @ ?evs2" using e1(1) e2 by simp
    have p2: "list_all (setup_event E) ?evs2" using e1(2) by simp
    show thesis
    proof (cases r2)
      case (Inl e)
      with ret s1 r1ok s2 have "r = Inl e" "w' = w2" by (simp_all add: oneTimeInit_def)
      with t2 p2 show thesis by (intro setup_failed [of ?evs2 e]) simp_all
    next
      case r2ok: (Inr u2)
      obtain r3 w3 where s3: "run E ?mk logging_DEBUG True
                       \<lparr>cwd = Some (busybox_dir E), shell = False\<rparr> w2 = (r3, w3)"
        by (cases "run E ?mk logging_DEBUG True \<lparr>cwd = Some (busybox_dir E), shell = False\<rparr> w2")
      from run_events [OF s3] obtain evs3 where
        e3: "trace w3 = trace w2 @ evs3"
            "\<forall>ev \<in> set evs3. case ev of LogMsg l m \<Rightarrow> l = logging_DEBUG | Popen c k \<Rightarrow> c = ?mk
                                  | Wait c rc \<Rightarrow> c = ?mk | _ \<Rightarrow> False"
        by blast
      have p3: "list_all (setup_event E) evs3"
        unfolding list_all_iff
      proof
        fix ev assume "ev \<in> set evs3"
        with e3(2) have "case ev of LogMsg l m \<Rightarrow> l = logging_DEBUG | Popen c k \<Rightarrow> c = ?mk
                                  | Wait c rc \<Rightarrow> c = ?mk | _ \<Rightarrow> False" by blast
        then show "setup_event E ev" by (cases ev) (simp_all add: setup_event_def)
      qed
      have t3: "trace w3 = trace w @ (?evs2 @ evs3)" using t2 e3(1) by simp
      have p3': "list_all (setup_event E) (?evs2 @ evs3)" using p2 p3 by simp
      show thesis
      proof (cases r3)
        case (Inl e)
        with ret s1 r1ok s2 r2ok s3 have "r = Inl e" "w' = w3" by (simp_all add: oneTimeInit_def)
        with t3 p3' show thesis by (intro setup_failed [of "?evs2 @ evs3" e]) simp_all
      next
        case r3ok: (Inr u3)
        obtain r4 w4 where s4: "shutil_copy_file E (pathlib_div (busybox_dir E) ''busybox'')
                            (pathlib_div (initramfs_root E) ''bin/'') w3 = (r4, w4)"
          by (cases "shutil_copy_file E (pathlib_div (busybox_dir E) ''busybox'')
                            (pathlib_div (initramfs_root E) ''bin/'') w3")
        from shutil_copy_frame [OF s4] obtain x4 where
          e4: "trace w4 = trace w3 @ [CopyFile (pathlib_div (busybox_dir E) ''busybox'')
                            (pathlib_div (initramfs_root E) ''bin/'') x4]" by blast
        let ?evs4 = "?evs2 @ evs3 @ [CopyFile (pathlib_div (busybox_dir E) ''busybox'')
                            (pathlib_div (initramfs_root E) ''bin/'') x4]"
        have t4: "trace w4 = trace w @ ?evs4" using t3 e4 by simp
        have p4: "list_all (setup_event E) ?evs4" using p2 p3 by simp
        show thesis
        proof (cases r4)
          case (Inl e)
          with ret s1 r1ok s2 r2ok s3 r3ok s4 have "r = Inl e" "w' = w4"
            by (simp_all add: oneTimeInit_def)
          with t4 p4 show thesis by (intro setup_failed [of ?evs4 e]) simp_all
        next
          case (Inr u4)
          with ret s1 r1ok s2 r2ok s3 r3ok s4 have "apply_linux_patches E w4 = (r, w')"
            by (simp add: oneTimeInit_def)
          with t4 p4 show thesis by (intro patching [of w4 ?evs4]) simp_all
        qed
      qed
    qed
  qed
qed

lemma setup_events_quiet:
  assumes "list_all (setup_event E) evs"
  shows "IsDirty d x \<notin> set evs" "Glob a b c \<notin> set evs"
    "LogMsg logging_ERROR m \<notin> set evs" "LogMsg logging_WARNING m \<notin> set evs"
    "filter is_git_apply (popens evs) = []" "list_all (\<lambda>e. \<not> is_direct_spawn e) evs"
  using assms
  by (induction evs rule: popens.induct)
     (auto simp: setup_event_def is_direct_spawn_def logging_ERROR_def logging_WARNING_def
        logging_DEBUG_def logging_INFO_def)

lemma patch_events_quiet:
  assumes "list_all patch_event evs"
  shows "IsDirty d x \<notin> set evs" "Glob a b c \<notin> set evs"
    "LogMsg logging_ERROR m \<notin> set evs" "LogMsg logging_WARNING m \<notin> set evs"
    "list_all (\<lambda>e. \<not> is_direct_spawn e) evs"
  using assms
  by (induction evs)
     (auto simp: patch_event_def is_direct_spawn_def logging_ERROR_def logging_WARNING_def
        logging_DEBUG_def logging_INFO_def split: event.splits)

lemma filter_git_apply [simp]: "filter is_git_apply (map git_apply_cmd ps) = map git_apply_cmd ps"
  by (induction ps) simp_all

text \<open>
  Claim C8. In \<^verbatim>\<open>oneTimeInit\<close>, once the dirty check has answered: on a dirty
  kernel tree the call returns normally, no \<^verbatim>\<open>git apply\<close> is spawned at all and the
  warning is logged; on a clean tree the call returns normally as well, the patches are
  tried in the order of the directory listing, and either no error is logged and every
  patch was applied, or the error is logged, the patches before the failing one were applied
  (their \<^verbatim>\<open>git apply\<close> exited with 0) and none after it was tried. Neither a dirty tree
  nor a failing patch makes the initializer raise.
\<close>

theorem oneTimeInit_patch_policy:
  assumes "oneTimeInit E w = (r, w')"
  shows "(IsDirty (linux_dir E) (Inr True) \<in> set (new_events w w') \<longrightarrow>
            r = Inr () \<and> filter is_git_apply (popens (new_events w w')) = [] \<and>
            LogMsg logging_WARNING dirty_msg \<in> set (new_events w w')) \<and>
         (IsDirty (linux_dir E) (Inr False) \<in> set (new_events w w') \<and>
          Glob (board_dir E) ''*.patch'' patches \<in> set (new_events w w') \<longrightarrow>
            r = Inr () \<and>
            (\<exists>n\<le>length patches.
               filter is_git_apply (popens (new_events w w')) = map git_apply_cmd (take n patches) \<and>
               (if LogMsg logging_ERROR failed_msg \<in> set (new_events w w')
                then 0 < n \<and> (\<forall>p \<in> set (take (n - 1) patches).
                                  Wait (git_apply_cmd p) 0 \<in> set (new_events w w'))
                else n = length patches \<and> (\<forall>p \<in> set patches.
                                  Wait (git_apply_cmd p) 0 \<in> set (new_events w w')))))"
  using assms
proof (cases rule: oneTimeInit_cases)
  case (setup_failed evs e)
  from setup_failed(1) have ne: "new_events w w' = evs" by simp
  from setup_events_quiet(1) [OF setup_failed(2)] ne show ?thesis by simp
next
  case (patching evs w4)
  note q = setup_events_quiet [OF patching(2)]
  from patching(3) show ?thesis
  proof (cases rule: apply_linux_patches_cases)
    case (repo_error ps err)
    with patching(1) have "new_events w w' =
        evs @ [Glob (board_dir E) ''*.patch'' ps, RepoOpen (linux_dir E) (Some err)]" by simp
    with q(1) show ?thesis by simp
  next
    case (dirty_error ps err)
    with patching(1) have "new_events w w' =
        evs @ [Glob (board_dir E) ''*.patch'' ps, RepoOpen (linux_dir E) None,
               IsDirty (linux_dir E) (Inl err)]" by simp
    with q(1) show ?thesis by simp
  next
    case (dirty ps)
    with patching(1) have "new_events w w' =
        evs @ [Glob (board_dir E) ''*.patch'' ps, RepoOpen (linux_dir E) None,
               IsDirty (linux_dir E) (Inr True), LogMsg logging_WARNING dirty_msg,
               LogList logging_WARNING ps]" by simp
    with q(1,5) dirty(2) show ?thesis by simp
  next
    case (clean ps pevs n tl)
    note pq = patch_events_quiet [OF clean(3)]
    from clean(1) patching(1) have ne: "new_events w w' =
        evs @ [Glob (board_dir E) ''*.patch'' ps, RepoOpen (linux_dir E) None,
               IsDirty (linux_dir E) (Inr False), LogMsg logging_INFO patches_msg] @ pevs @ tl"
      by simp
    have ga: "filter is_git_apply (popens (new_events w w')) = map git_apply_cmd (take n ps)"
      using ne q(5) clean(5,6) by auto
    have nodirty: "IsDirty (linux_dir E) (Inr True) \<notin> set (new_events w w')"
      using ne q(1) pq(1) clean(6) by auto
    have info: "logging_INFO \<noteq> logging_ERROR" by (simp add: logging_INFO_def logging_ERROR_def)
    have second: "Glob (board_dir E) ''*.patch'' patches \<in> set (new_events w w') \<longrightarrow>
            (\<exists>n\<le>length patches.
               filter is_git_apply (popens (new_events w w')) = map git_apply_cmd (take n patches) \<and>
               (if LogMsg logging_ERROR failed_msg \<in> set (new_events w w')
                then 0 < n \<and> (\<forall>p \<in> set (take (n - 1) patches).
                                  Wait (git_apply_cmd p) 0 \<in> set (new_events w w'))
                else n = length patches \<and> (\<forall>p \<in> set patches.
                                  Wait (git_apply_cmd p) 0 \<in> set (new_events w w'))))"
    proof
      assume "Glob (board_dir E) ''*.patch'' patches \<in> set (new_events w w')"
      with ne q(2) pq(2) clean(6) have same: "patches = ps" by auto
      from clean(6) show "\<exists>n\<le>length patches.
               filter is_git_apply (popens (new_events w w')) = map git_apply_cmd (take n patches) \<and>
               (if LogMsg logging_ERROR failed_msg \<in> set (new_events w w')
                then 0 < n \<and> (\<forall>p \<in> set (take (n - 1) patches).
                                  Wait (git_apply_cmd p) 0 \<in> set (new_events w w'))
                else n = length patches \<and> (\<forall>p \<in> set patches.
                                  Wait (git_apply_cmd p) 0 \<in> set (new_events w w')))"
      proof
        assume a: "tl = [] \<and> n = length ps \<and> (\<forall>p \<in> set ps. Wait (git_apply_cmd p) 0 \<in> set pevs)"
        with ne q(3) pq(3) info have "LogMsg logging_ERROR failed_msg \<notin> set (new_events w w')"
          by auto
        with a ga same ne clean(4) show ?thesis by (intro exI [of _ n]) auto
      next
        assume a: "tl = [LogMsg logging_ERROR failed_msg] \<and> 0 < n \<and>
          (\<forall>p \<in> set (take (n - 1) ps). Wait (git_apply_cmd p) 0 \<in> set pevs)"
        with ne have "LogMsg logging_ERROR failed_msg \<in> set (new_events w w')" by simp
        with a ga same ne clean(4) show ?thesis by (intro exI [of _ n]) auto
      qed
    qed
    from nodirty second clean(2) show ?thesis by blast
  qed
qed

lemmas init_defs = oneTimeInit_def apply_linux_patches_def initramfs_dirs_def
  shutil_copy_file_def run_def Let_def emit_def log_log_def calm_env_def git_apply_cmd_def

theorem oneTimeInit_patch_policy_witness:
  "IsDirty (linux_dir dirty_env) (Inr True) \<in> set (new_events w0 (snd (oneTimeInit dirty_env w0))) \<and>
   fst (oneTimeInit dirty_env w0) = Inr () \<and>
   filter is_git_apply (popens (new_events w0 (snd (oneTimeInit dirty_env w0)))) = [] \<and>
   LogMsg logging_WARNING dirty_msg \<in> set (new_events w0 (snd (oneTimeInit dirty_env w0))) \<and>
   IsDirty (linux_dir flaky_env) (Inr False) \<in> set (new_events w0 (snd (oneTimeInit flaky_env w0))) \<and>
   Glob (board_dir flaky_env) ''*.patch'' [''a.patch'', ''b.patch'', ''c.patch'']
     \<in> set (new_events w0 (snd (oneTimeInit flaky_env w0))) \<and>
   fst (oneTimeInit flaky_env w0) = Inr () \<and>
   LogMsg logging_ERROR failed_msg \<in> set (new_events w0 (snd (oneTimeInit flaky_env w0))) \<and>
   filter is_git_apply (popens (new_events w0 (snd (oneTimeInit flaky_env w0)))) =
     [git_apply_cmd ''a.patch'', git_apply_cmd ''b.patch'']"
proof -
  have ne: "new_events w0 w = trace w" for w by (simp add: new_events_def w0_def)
  have d: "IsDirty (linux_dir dirty_env) (Inr True) \<in> set (trace (snd (oneTimeInit dirty_env w0)))"
    by (simp add: init_defs dirty_env_def w0_def)
  have f: "IsDirty (linux_dir flaky_env) (Inr False) \<in> set (trace (snd (oneTimeInit flaky_env w0))) \<and>
     Glob (board_dir flaky_env) ''*.patch'' [''a.patch'', ''b.patch'', ''c.patch'']
       \<in> set (trace (snd (oneTimeInit flaky_env w0))) \<and>
     LogMsg logging_ERROR failed_msg \<in> set (trace (snd (oneTimeInit flaky_env w0))) \<and>
     popens (trace (snd (oneTimeInit flaky_env w0))) =
       [CmdArgv [''make'', ''-j4''], git_apply_cmd ''a.patch'', git_apply_cmd ''b.patch'']"
    by (simp add: init_defs flaky_env_def w0_def)
  from oneTimeInit_patch_policy [of dirty_env w0 "fst (oneTimeInit dirty_env w0)"
         "snd (oneTimeInit dirty_env w0)"] d
  have d': "fst (oneTimeInit dirty_env w0) = Inr () \<and>
     filter is_git_apply (popens (new_events w0 (snd (oneTimeInit dirty_env w0)))) = [] \<and>
     LogMsg logging_WARNING dirty_msg \<in> set (new_events w0 (snd (oneTimeInit dirty_env w0)))"
    by (simp add: ne)
  from oneTimeInit_patch_policy [of flaky_env w0 "fst (oneTimeInit flaky_env w0)"
         "snd (oneTimeInit flaky_env w0)" "[''a.patch'', ''b.patch'', ''c.patch'']"] f
  have f': "fst (oneTimeInit flaky_env w0) = Inr ()"
    by (simp add: ne)
  from f have "filter is_git_apply (popens (trace (snd (oneTimeInit flaky_env w0)))) =
     [git_apply_cmd ''a.patch'', git_apply_cmd ''b.patch'']"
    by simp
  with d d' f f' show ?thesis by (simp add: ne)
qed

section \<open>Which calls spawn processes outside the command runner\<close>












section \<open>Run names\<close>

lemma rand_chars_frame:
  "rand_chars E n w = (cs, w') \<Longrightarrow>
   length cs = n \<and> set cs \<subseteq> set alphabet \<and> runName w' = runName w \<and>
   (\<exists>evs. trace w' = trace w @ evs \<and> length evs = n)"
proof (induction n arbitrary: w cs w')
  case 0
  then show ?case by simp
next
  case (Suc n)
  let ?i = "random_below E (trace w) (length alphabet) mod length alphabet"
  obtain cs1 w1 where r: "rand_chars E n (emit (RandomChoice ?i) w) = (cs1, w1)"
    by (cases "rand_chars E n (emit (RandomChoice ?i) w)")
  from Suc.IH [OF r] obtain evs where
    ih: "length cs1 = n" "set cs1 \<subseteq> set alphabet" "runName w1 = runName w"
        "trace w1 = trace w @ RandomChoice ?i # evs" "length evs = n"
    by auto
  have "?i < length alphabet" by (simp add: alphabet_def)
  then have "alphabet ! ?i \<in> set alphabet" by (rule nth_mem)
  moreover from Suc.prems r have "cs = alphabet ! ?i # cs1" "w' = w1" by (simp_all add: Let_def)
  ultimately show ?case using ih by auto
qed

lemma rand_chars_length [simp]: "length (fst (rand_chars E n w)) = n"
  using rand_chars_frame [of E n w "fst (rand_chars E n w)" "snd (rand_chars E n w)"] by simp

lemma rand_chars_alphabet: "set (fst (rand_chars E n w)) \<subseteq> set alphabet"
  using rand_chars_frame [of E n w "fst (rand_chars E n w)" "snd (rand_chars E n w)"] by simp

lemma splitext_empty: "fst (splitext (basename [])) = []"
  by (simp add: splitext_def basename_def rfind_def)

lemma foo_yaml: "fst (splitext (basename ''/cfg/foo.yaml'')) = ''foo''"
  by (simp add: splitext_def basename_def rfind_def Let_def)

lemma setRunName_runName:
  "runName (setRunName E configPath operation w) =
     configName_of configPath @ ''-'' @ operation @ ''-'' @
     strftime_run (time_gmtime E (trace w)) @ ''-'' @
     fst (rand_chars E 16 (emit (GmTime (time_gmtime E (trace w))) w))"
  by (cases configPath)
     (auto simp: setRunName_def Let_def configName_of_def splitext_empty split: prod.splits)

lemma stamp: "strftime_run \<lparr>tm_year = 2019, tm_mon = 3, tm_mday = 9, tm_hour = 7,
                            tm_min = 5, tm_sec = 30\<rparr> = ''2019-03-09--07-05-30''"
  by (simp add: strftime_run_def zpad_def)

lemma stuck_chars: "fst (rand_chars stuck_env n w) = replicate n CHR ''A''"
  by (induction n arbitrary: w)
     (simp_all add: stuck_env_def alphabet_def Let_def case_prod_beta)

text \<open>
  Claim C7 as it stands fails in its second half: nothing in \<^verbatim>\<open>setRunName\<close> makes two
  successive names differ. With a clock that shows the same second and a random source
  that repeats its draws, two successive calls with the same arguments set the same name.
\<close>

theorem setRunName_can_repeat:
  "runName (setRunName stuck_env (Some ''/cfg/foo.yaml'') ''build'' w0) =
     ''foo-build-2019-03-09--07-05-30-'' @ replicate 16 CHR ''A'' \<and>
   runName (setRunName stuck_env (Some ''/cfg/foo.yaml'') ''build''
              (setRunName stuck_env (Some ''/cfg/foo.yaml'') ''build'' w0)) =
     runName (setRunName stuck_env (Some ''/cfg/foo.yaml'') ''build'' w0)"
proof -
  have t: "time_gmtime stuck_env t = \<lparr>tm_year = 2019, tm_mon = 3, tm_mday = 9, tm_hour = 7,
                            tm_min = 5, tm_sec = 30\<rparr>" for t
    by (simp add: stuck_env_def calm_env_def)
  have cn: "configName_of (Some ''/cfg/foo.yaml'') = ''foo''"
    by (simp add: configName_of_def foo_yaml)
  have "runName (setRunName stuck_env (Some ''/cfg/foo.yaml'') ''build'' w) =
     ''foo-build-2019-03-09--07-05-30-'' @ replicate 16 CHR ''A''" for w
    unfolding setRunName_runName cn t stamp stuck_chars by simp
  then show ?thesis by simp
qed

text \<open>
  Claim C7, amended. \<^verbatim>\<open>setRunName(configPath, operation)\<close> sets the run name to the
  base name of the configuration path without its extension, the operation, the UTC time
  as \<^verbatim>\<open>%Y-%m-%d--%H-%M-%S\<close> and 16 characters drawn from the upper-case letters and
  digits, joined by \<^verbatim>\<open>-\<close>. Two successive calls \<^verbatim>\<open>setRunName("/cfg/foo.yaml", "build")\<close>
  set names that both begin with \<^verbatim>\<open>foo-build-\<close>, and the two names differ exactly when
  the time stamps or the random suffixes differ.
\<close>

theorem setRunName_names:
  "runName (setRunName E configPath operation w) =
     configName_of configPath @ ''-'' @ operation @ ''-'' @
     strftime_run (time_gmtime E (trace w)) @ ''-'' @
     fst (rand_chars E 16 (emit (GmTime (time_gmtime E (trace w))) w)) \<and>
   length (fst (rand_chars E 16 (emit (GmTime (time_gmtime E (trace w))) w))) = 16 \<and>
   set (fst (rand_chars E 16 (emit (GmTime (time_gmtime E (trace w))) w))) \<subseteq> set alphabet \<and>
   (let w1 = setRunName E (Some ''/cfg/foo.yaml'') ''build'' w;
        w2 = setRunName E (Some ''/cfg/foo.yaml'') ''build'' w1
    in take 10 (runName w1) = ''foo-build-'' \<and> take 10 (runName w2) = ''foo-build-'' \<and>
       (runName w1 = runName w2 \<longleftrightarrow>
          strftime_run (time_gmtime E (trace w)) = strftime_run (time_gmtime E (trace w1)) \<and>
          fst (rand_chars E 16 (emit (GmTime (time_gmtime E (trace w))) w)) =
          fst (rand_chars E 16 (emit (GmTime (time_gmtime E (trace w1))) w1))))"
proof -
  let ?t = "\<lambda>w. strftime_run (time_gmtime E (trace w))"
  let ?s = "\<lambda>w. fst (rand_chars E 16 (emit (GmTime (time_gmtime E (trace w))) w))"
  let ?w1 = "setRunName E (Some ''/cfg/foo.yaml'') ''build'' w"
  let ?w2 = "setRunName E (Some ''/cfg/foo.yaml'') ''build'' ?w1"
  have cn: "configName_of (Some ''/cfg/foo.yaml'') = ''foo''"
    by (simp add: configName_of_def foo_yaml)
  have n1: "runName ?w1 = ''foo-build-'' @ ?t w @ ''-'' @ ?s w"
    by (simp add: setRunName_runName cn)
  have n2: "runName ?w2 = ''foo-build-'' @ ?t ?w1 @ ''-'' @ ?s ?w1"
    by (simp add: setRunName_runName cn)
  have "(?t w @ ''-'' @ ?s w = ?t ?w1 @ ''-'' @ ?s ?w1) = (?t w = ?t ?w1 \<and> ''-'' @ ?s w = ''-'' @ ?s ?w1)"
    by (rule append_eq_append_conv) simp
  then have eq: "(runName ?w1 = runName ?w2) = (?t w = ?t ?w1 \<and> ?s w = ?s ?w1)"
    by (simp add: n1 n2)
  have p1: "take 10 (runName ?w1) = ''foo-build-''" by (simp add: n1)
  have p2: "take 10 (runName ?w2) = ''foo-build-''" by (simp add: n2)
  show ?thesis
    using setRunName_runName [of E configPath operation w] rand_chars_alphabet p1 p2 eq
    by (simp add: Let_def)
qed

section \<open>Paths on the image side of a copy\<close>















end
